theory Spec2Isabelle
  imports Complex_Main "HOL-Library.Log_Nat"
begin

section \<open>Strings of the host language\<close>

text \<open>
  A JavaScript string is a sequence of UTF-16 code units. It is modelled as a list of
  natural numbers, one per code unit, so that \<open>length\<close>, \<open>trim\<close>, \<open>includes\<close> and the
  JSON functions count and compare what the program's string type counts. \<open>js\<close> turns
  an ASCII literal into such a list.
\<close>

type_synonym jsstring = "nat list"

definition js :: "string \<Rightarrow> jsstring" where
  "js s = map of_char s"

text \<open>
  White space and line terminators, as \<open>String.prototype.trim\<close> and \<open>parseFloat\<close>
  strip them (ECMA-262, TrimString): TAB, LF, VT, FF, CR, SP, NBSP, U+1680,
  U+2000..U+200A, U+2028, U+2029, U+202F, U+205F, U+3000 and U+FEFF.
\<close>

definition isWhiteSpace :: "nat \<Rightarrow> bool" where
  "isWhiteSpace c \<longleftrightarrow>
     c = 9 \<or> c = 10 \<or> c = 11 \<or> c = 12 \<or> c = 13 \<or> c = 32 \<or> c = 160 \<or> c = 5760 \<or>
     (8192 \<le> c \<and> c \<le> 8202) \<or> c = 8232 \<or> c = 8233 \<or> c = 8239 \<or> c = 8287 \<or>
     c = 12288 \<or> c = 65279"

definition trimStart :: "jsstring \<Rightarrow> jsstring" where
  "trimStart s = dropWhile isWhiteSpace s"

definition trim :: "jsstring \<Rightarrow> jsstring" where
  "trim s = rev (dropWhile isWhiteSpace (rev (dropWhile isWhiteSpace s)))"

text \<open>
  \<open>String.prototype.toLowerCase\<close>. On a text of ASCII code units only it turns \<open>A..Z\<close>
  into \<open>a..z\<close> and leaves every other unit as it is. On any other text the result
  follows the Unicode case tables of the host (one-to-many mappings such as U+0130 to
  \<open>i\<close> and U+0307, and the context rule for the Greek sigma, included); these tables
  are no part of the program, and \<open>hostLower\<close> stands for the host's function on such
  texts.
\<close>

definition asciiLower :: "nat \<Rightarrow> nat" where
  "asciiLower c = (if 65 \<le> c \<and> c \<le> 90 then c + 32 else c)"

definition toLowerCase :: "(jsstring \<Rightarrow> jsstring) \<Rightarrow> jsstring \<Rightarrow> jsstring" where
  "toLowerCase hostLower s =
     (if list_all (\<lambda>c. c < 128) s then map asciiLower s else hostLower s)"

text \<open>\<open>s.startsWith(t)\<close>, and \<open>s.includes(t)\<close> (here \<open>includesStr\<close>): \<open>t\<close> occurs in \<open>s\<close> as a contiguous block.\<close>

fun startsWith :: "jsstring \<Rightarrow> jsstring \<Rightarrow> bool" where
  "startsWith s [] = True"
| "startsWith [] (d # t) = False"
| "startsWith (c # s) (d # t) = (c = d \<and> startsWith s t)"

fun includesStr :: "jsstring \<Rightarrow> jsstring \<Rightarrow> bool" where
  "includesStr [] t = (t = [])"
| "includesStr (c # s) t = (startsWith (c # s) t \<or> includesStr s t)"

section \<open>Numbers of the host language\<close>

text \<open>
  A JavaScript Number is an IEEE 754 binary64 value. The finite ones are rationals, so a
  Number is \<open>NaN\<close>, an infinity, or \<open>Fin x\<close> with \<open>x\<close> the exact value of the double. The
  two zeros are one value here: no operation below tells them apart
  (\<open>Math.max(0, -0)\<close> is \<open>+0\<close>).
\<close>

datatype jsnum = NaN | NInf | Fin rat | PInf

definition pow2 :: "int \<Rightarrow> rat" where
  "pow2 e = (if 0 \<le> e then 2 ^ nat e else 1 / 2 ^ nat (- e))"

text \<open>For \<open>x > 0\<close>, \<open>ilog2 x\<close> is the exponent \<open>e\<close> with \<open>2^e \<le> x < 2^(e+1)\<close>.\<close>

definition ilog2 :: "rat \<Rightarrow> int" where
  "ilog2 x =
     (let d = bitlen (fst (quotient_of x)) - bitlen (snd (quotient_of x))
      in if pow2 d \<le> x then d else d - 1)"

definition roundTiesToEven :: "rat \<Rightarrow> int" where
  "roundTiesToEven x =
     (let f = \<lfloor>x\<rfloor>; r = x - of_int f
      in if r < 1 / 2 then f
         else if 1 / 2 < r then f + 1
         else if even f then f else f + 1)"

text \<open>
  Rounding of an exact positive value to binary64, round-to-nearest, ties to even:
  53 significant bits for a normal number, a fixed quantum of \<open>2^-1074\<close> below
  \<open>2^-1022\<close>, and infinity from \<open>2^1024\<close> on.
\<close>

definition fl_pos :: "rat \<Rightarrow> jsnum" where
  "fl_pos x =
     (let q = max (ilog2 x) (- 1022) - 52;
          y = of_int (roundTiesToEven (x / pow2 q)) * pow2 q
      in if pow2 1024 \<le> y then PInf else Fin y)"

fun js_neg :: "jsnum \<Rightarrow> jsnum" where
  "js_neg NaN = NaN"
| "js_neg NInf = PInf"
| "js_neg (Fin x) = Fin (- x)"
| "js_neg PInf = NInf"

definition fl :: "rat \<Rightarrow> jsnum" where
  "fl x = (if x = 0 then Fin 0 else if 0 < x then fl_pos x else js_neg (fl_pos (- x)))"

text \<open>
  \<open>a / d\<close> and \<open>a * m\<close> for a Number \<open>a\<close> and a positive finite constant (the program only
  divides by 4 and by 8 + 1 and multiplies by 100): the exact result, rounded.
\<close>

fun js_div :: "jsnum \<Rightarrow> rat \<Rightarrow> jsnum" where
  "js_div NaN d = NaN"
| "js_div NInf d = NInf"
| "js_div (Fin x) d = fl (x / d)"
| "js_div PInf d = PInf"

fun js_mul :: "jsnum \<Rightarrow> rat \<Rightarrow> jsnum" where
  "js_mul NaN m = NaN"
| "js_mul NInf m = NInf"
| "js_mul (Fin x) m = fl (x * m)"
| "js_mul PInf m = PInf"

text \<open>
  \<open>Math.round\<close>: the nearest integer, a tie going up. The result is a double without
  further rounding.
\<close>

fun Math_round :: "jsnum \<Rightarrow> jsnum" where
  "Math_round (Fin x) = Fin (of_int \<lfloor>x + 1 / 2\<rfloor>)"
| "Math_round v = v"

text \<open>\<open>Math.max(lo, v)\<close> and \<open>Math.min(hi, v)\<close> with a finite first argument.\<close>

fun Math_max :: "rat \<Rightarrow> jsnum \<Rightarrow> jsnum" where
  "Math_max lo NaN = NaN"
| "Math_max lo NInf = Fin lo"
| "Math_max lo (Fin x) = Fin (max lo x)"
| "Math_max lo PInf = PInf"

fun Math_min :: "rat \<Rightarrow> jsnum \<Rightarrow> jsnum" where
  "Math_min hi NaN = NaN"
| "Math_min hi NInf = NInf"
| "Math_min hi (Fin x) = Fin (min hi x)"
| "Math_min hi PInf = Fin hi"

subsection \<open>parseFloat\<close>

definition isDigit :: "nat \<Rightarrow> bool" where
  "isDigit c \<longleftrightarrow> 48 \<le> c \<and> c \<le> 57"

text \<open>The value of a run of decimal digits, most significant first.\<close>

definition digitsValue :: "jsstring \<Rightarrow> int" where
  "digitsValue ds = foldl (\<lambda>a c. 10 * a + (int c - 48)) 0 ds"

text \<open>
  The optional exponent part of a decimal literal: \<open>e\<close> or \<open>E\<close>, an optional sign and
  at least one digit; without a digit there is no exponent part and nothing is
  consumed. The result is the exponent and the rest of the input.
\<close>

definition exponentPart :: "jsstring \<Rightarrow> int \<times> jsstring" where
  "exponentPart s =
     (case s of
        [] \<Rightarrow> (0, s)
      | c # t \<Rightarrow>
          if c = 101 \<or> c = 69 then
            (let neg = (t \<noteq> [] \<and> hd t = 45);
                 u = (if t \<noteq> [] \<and> (hd t = 43 \<or> hd t = 45) then tl t else t);
                 ds = takeWhile isDigit u
             in if ds = [] then (0, s)
                else ((if neg then - digitsValue ds else digitsValue ds),
                      dropWhile isDigit u))
          else (0, s))"

definition pow10 :: "int \<Rightarrow> rat" where
  "pow10 e = (if 0 \<le> e then 10 ^ nat e else 1 / 10 ^ nat (- e))"

text \<open>
  The longest prefix that is a StrUnsignedDecimalLiteral, and its mathematical value:
  \<open>Infinity\<close>, or digits with an optional fraction and exponent, or a fraction that
  starts with the point. \<open>None\<close> when no prefix is one.
\<close>

datatype literal = LitInfinity | LitValue rat

text \<open>
  The value of a decimal literal whose leading digits are \<open>ip\<close> (possibly none) and
  which goes on in \<open>r1\<close>: an optional point with digits \<open>fp\<close>, then an optional exponent
  part. \<open>None\<close> when there is no digit before or after the point.
\<close>

definition decimalValue :: "jsstring \<Rightarrow> jsstring \<Rightarrow> literal option" where
  "decimalValue ip r1 =
     (let hasPoint = (r1 \<noteq> [] \<and> hd r1 = 46);
          fp = (if hasPoint then takeWhile isDigit (tl r1) else []);
          r2 = (if hasPoint then dropWhile isDigit (tl r1) else r1)
      in if ip = [] \<and> fp = [] then None
         else Some (LitValue
                (of_int (digitsValue (ip @ fp)) *
                 pow10 (fst (exponentPart r2) - int (length fp)))))"

definition strUnsignedDecimalLiteral :: "jsstring \<Rightarrow> literal option" where
  "strUnsignedDecimalLiteral s =
     (if startsWith s (js ''Infinity'') then Some LitInfinity
      else decimalValue (takeWhile isDigit s) (dropWhile isDigit s))"

text \<open>
  \<open>parseFloat\<close>: leading white space is dropped, an optional sign is read, the longest
  literal prefix is taken and its value rounded to a double; \<open>NaN\<close> when there is no
  such prefix. (For a literal of more than 20 significant digits the standard also
  allows an approximation of the digits; the correctly rounded value is modelled.)
\<close>

definition parseFloat :: "jsstring \<Rightarrow> jsnum" where
  "parseFloat s =
     (let t = trimStart s;
          neg = (t \<noteq> [] \<and> hd t = 45);
          u = (if t \<noteq> [] \<and> (hd t = 43 \<or> hd t = 45) then tl t else t)
      in case strUnsignedDecimalLiteral u of
           None \<Rightarrow> NaN
         | Some LitInfinity \<Rightarrow> (if neg then NInf else PInf)
         | Some (LitValue m) \<Rightarrow> (if neg then js_neg (fl m) else fl m))"

section \<open>Derived values\<close>

text \<open>
  \<^verbatim>\<open>function computeFitScore(gpa: string): number {
    const gpaNum = parseFloat(gpa);
    if (isNaN(gpaNum)) return 50;
    return Math.min(100, Math.max(0, Math.round(gpaNum / 4 * 100)));
  }\<close>
\<close>

definition computeFitScore :: "jsstring \<Rightarrow> jsnum" where
  "computeFitScore gpa =
     (let gpaNum = parseFloat gpa
      in if gpaNum = NaN then Fin 50
         else Math_min 100 (Math_max 0 (Math_round (js_mul (js_div gpaNum 4) 100))))"

section \<open>Entities\<close>

text \<open>
  The types of \<^verbatim>\<open>page.tsx\<close>. Field names carry the entity as a prefix where two
  entities share a name. An \<open>id\<close> is a \<open>Date.now()\<close> reading, an integral number of
  milliseconds, hence an \<open>int\<close>; the \<open>id\<close> of an achievement is kept as the Number it is,
  since the JSON import can put any Number there.
\<close>

record Achievement =
  ach_id :: jsnum
  ach_text :: jsstring

record Profile =
  name :: jsstring
  email :: jsstring
  phone :: jsstring
  position :: jsstring
  height :: jsstring
  weight :: jsstring
  gpa :: jsstring
  testScores :: jsstring
  achievements :: "Achievement list"

record School =
  school_id :: int
  school_name :: jsstring
  division :: jsstring
  contact :: jsstring
  fitScore :: jsnum

record Outreach =
  outreach_id :: int
  schoolId :: int
  date :: jsstring
  message :: jsstring

datatype Sender = FromUser | FromBot

record BotMessage =
  msg_id :: int
  msg_from :: Sender
  msg_text :: jsstring

definition emptyProfile :: Profile where
  "emptyProfile =
     \<lparr>name = [], email = [], phone = [], position = [], height = [], weight = [],
      gpa = [], testScores = [], achievements = []\<rparr>"

text \<open>The component state: one slot per \<open>useState\<close> hook that the operations below touch.\<close>

record AppState =
  profile :: Profile
  schools :: "School list"
  outreach :: "Outreach list"
  botMessages :: "BotMessage list"
  botName :: jsstring

subsection \<open>Profile completion\<close>

text \<open>
  \<^verbatim>\<open>const completedFields = [profile.name, profile.email, profile.phone, profile.position,
    profile.height, profile.weight, profile.gpa, profile.testScores].filter(Boolean).length;
  const profileCompletion =
    Math.round(((completedFields + profile.achievements.length) / (8 + 1)) * 100);\<close>
  \<open>Boolean\<close> of a string is false for the empty string only.
\<close>

definition Boolean :: "jsstring \<Rightarrow> bool" where
  "Boolean s \<longleftrightarrow> s \<noteq> []"

definition completedFields :: "Profile \<Rightarrow> nat" where
  "completedFields p =
     length (filter Boolean
       [name p, email p, phone p, position p, height p, weight p, gpa p, testScores p])"

definition profileCompletion :: "Profile \<Rightarrow> jsnum" where
  "profileCompletion p =
     Math_round
       (js_mul
          (js_div (Fin (of_int (int (completedFields p + length (achievements p))))) (8 + 1))
          100)"

subsection \<open>Profile fields\<close>

text \<open>
  \<^verbatim>\<open>function handleProfileChange<K extends keyof Profile>(field: K, value: Profile[K]) {
    setProfile(prev => ({ ...prev, [field]: value }));
  }\<close>
  A field together with a value of that field's type is one constructor of
  \<open>ProfileChange\<close>.
\<close>

datatype ProfileChange =
    Set_name jsstring
  | Set_email jsstring
  | Set_phone jsstring
  | Set_position jsstring
  | Set_height jsstring
  | Set_weight jsstring
  | Set_gpa jsstring
  | Set_testScores jsstring
  | Set_achievements "Achievement list"

fun setField :: "ProfileChange \<Rightarrow> Profile \<Rightarrow> Profile" where
  "setField (Set_name v) p = p\<lparr>name := v\<rparr>"
| "setField (Set_email v) p = p\<lparr>email := v\<rparr>"
| "setField (Set_phone v) p = p\<lparr>phone := v\<rparr>"
| "setField (Set_position v) p = p\<lparr>position := v\<rparr>"
| "setField (Set_height v) p = p\<lparr>height := v\<rparr>"
| "setField (Set_weight v) p = p\<lparr>weight := v\<rparr>"
| "setField (Set_gpa v) p = p\<lparr>gpa := v\<rparr>"
| "setField (Set_testScores v) p = p\<lparr>testScores := v\<rparr>"
| "setField (Set_achievements v) p = p\<lparr>achievements := v\<rparr>"

definition handleProfileChange :: "ProfileChange \<Rightarrow> AppState \<Rightarrow> AppState" where
  "handleProfileChange c s = s\<lparr>profile := setField c (profile s)\<rparr>"

subsection \<open>Schools and outreach\<close>

text \<open>
  \<^verbatim>\<open>function addSchool(name: string, division: string, contact: string) {
    if (!name.trim()) return;
    const newSchool: School = { id: Date.now(), name, division, contact,
      fitScore: computeFitScore(profile.gpa) };
    setSchools(prev => [...prev, newSchool]);
  }\<close>
  The clock reading \<open>now\<close> is an argument of the model.
\<close>

definition addSchool :: "int \<Rightarrow> jsstring \<Rightarrow> jsstring \<Rightarrow> jsstring \<Rightarrow> AppState \<Rightarrow> AppState" where
  "addSchool now nm dv ct s =
     (if trim nm = [] then s
      else s\<lparr>schools := schools s @
             [\<lparr>school_id = now, school_name = nm, division = dv, contact = ct,
               fitScore = computeFitScore (gpa (profile s))\<rparr>]\<rparr>)"

text \<open>
  \<^verbatim>\<open>function removeSchool(id: number) {
    setSchools(prev => prev.filter(s => s.id !== id));
    // Also remove outreach logs associated with that school
    setOutreach(prev => prev.filter(o => o.schoolId !== id));
  }\<close>
\<close>

definition removeSchool :: "int \<Rightarrow> AppState \<Rightarrow> AppState" where
  "removeSchool i s =
     s\<lparr>schools := filter (\<lambda>sc. school_id sc \<noteq> i) (schools s),
       outreach := filter (\<lambda>e. schoolId e \<noteq> i) (outreach s)\<rparr>"

text \<open>
  \<^verbatim>\<open>function logOutreach(schoolId: number, message: string) {
    const school = schools.find(s => s.id === schoolId);
    if (!school || !message.trim()) return;
    const newEntry: Outreach = { id: Date.now(), schoolId: school.id,
      date: new Date().toISOString().split('T')[0], message };
    setOutreach(prev => [...prev, newEntry]);
  }\<close>
  \<open>now\<close> is the clock reading and \<open>isoText\<close> the text that \<open>new Date().toISOString()\<close>
  returns; \<open>split('T')[0]\<close> is the part of it before the first \<open>T\<close>.
\<close>

definition beforeFirst :: "nat \<Rightarrow> jsstring \<Rightarrow> jsstring" where
  "beforeFirst sep s = takeWhile (\<lambda>c. c \<noteq> sep) s"

definition logOutreach :: "int \<Rightarrow> jsstring \<Rightarrow> int \<Rightarrow> jsstring \<Rightarrow> AppState \<Rightarrow> AppState" where
  "logOutreach now isoText sid msg s =
     (case find (\<lambda>sc. school_id sc = sid) (schools s) of
        None \<Rightarrow> s
      | Some school \<Rightarrow>
          if trim msg = [] then s
          else s\<lparr>outreach := outreach s @
                 [\<lparr>outreach_id = now, schoolId = school_id school,
                   date = beforeFirst 84 isoText, message = msg\<rparr>]\<rparr>)"

subsection \<open>The bot\<close>

text \<open>
  The reply that \<open>sendToBot\<close> computes (the \<open>if\<close> chain over the lower-cased input),
  as a function of the bot's name and the user's text; \<open>hostLower\<close> is the host's
  lower-casing of texts that are not ASCII.
\<close>

definition greeting :: "jsstring \<Rightarrow> jsstring" where
  "greeting bn =
     js ''Hello! I'' @ [39] @ js ''m '' @ bn @
     js ''. How can I assist with your recruiting journey today?''"

definition profileReply :: jsstring where
  "profileReply = js ''Make sure your profile includes your position, height, weight, GPA, and test scores. College coaches look for complete information!''"

definition schoolReply :: jsstring where
  "schoolReply = js ''When building your target school list, consider a mix of reach, match, and safety schools across divisions.''"

definition outreachReply :: jsstring where
  "outreachReply = js ''Consistent outreach is key: send introductory emails, follow up every couple weeks, and personalize each message for the coach.''"

definition reelReply :: jsstring where
  "reelReply =
     js ''Your highlight reel should showcase 20'' @ [8211] @
     js ''25 of your best plays in the first 90 seconds. Use hudl or YouTube for hosting.''"

definition fallbackReply :: jsstring where
  "fallbackReply =
     js ''I'' @ [39] @ js ''m sorry, I don'' @ [39] @
     js ''t have an answer for that just yet. Try asking about your profile, school list, outreach, or highlight reel.''"

definition respond :: "(jsstring \<Rightarrow> jsstring) \<Rightarrow> jsstring \<Rightarrow> jsstring \<Rightarrow> jsstring" where
  "respond hostLower bn userText =
     (let lower = toLowerCase hostLower userText
      in if includesStr lower (js ''hello'') \<or> includesStr lower (js ''hi'') then greeting bn
         else if includesStr lower (js ''profile'') then profileReply
         else if includesStr lower (js ''school'') \<or> includesStr lower (js ''list'') then schoolReply
         else if includesStr lower (js ''outreach'') then outreachReply
         else if includesStr lower (js ''highlight'') \<or> includesStr lower (js ''reel'') then reelReply
         else fallbackReply)"

text \<open>
  \<^verbatim>\<open>function sendToBot(userText: string) {
    if (!userText.trim()) return;
    const userMsg: BotMessage = { id: Date.now(), from: 'user', text: userText };
    setBotMessages(prev => [...prev, userMsg]);
    ...
    const botMsg: BotMessage = { id: Date.now() + 1, from: 'bot', text: reply };
    setBotMessages(prev => [...prev, botMsg]);
  }\<close>
  \<open>t1\<close> and \<open>t2\<close> are the two clock readings, in the order the code takes them.
\<close>

definition sendToBot ::
  "(jsstring \<Rightarrow> jsstring) \<Rightarrow> int \<Rightarrow> int \<Rightarrow> jsstring \<Rightarrow> AppState \<Rightarrow> AppState" where
  "sendToBot hostLower t1 t2 userText s =
     (if trim userText = [] then s
      else s\<lparr>botMessages := (botMessages s @
               [\<lparr>msg_id = t1, msg_from = FromUser, msg_text = userText\<rparr>]) @
               [\<lparr>msg_id = t2 + 1, msg_from = FromBot,
                 msg_text = respond hostLower (botName s) userText\<rparr>]\<rparr>)"

section \<open>JSON\<close>

text \<open>
  \<open>JSON.parse\<close> and \<open>JSON.stringify\<close> are functions of the host; they are modelled after
  ECMA-262 (JSON.parse, SerializeJSONProperty, QuoteJSONString) and ECMA-404.
\<close>

subsection \<open>Values\<close>

text \<open>
  A parsed JSON text. An object is the list of its members in the order of the text;
  when a key is repeated, the object that \<open>JSON.parse\<close> builds has the last value.
\<close>

datatype json =
    JNull
  | JBool bool
  | JNum jsnum
  | JStr jsstring
  | JArr "json list"
  | JObj "(jsstring \<times> json) list"

datatype parse_error = SyntaxError | OutOfFuel

subsection \<open>JSON.parse\<close>

definition isJSONWhiteSpace :: "nat \<Rightarrow> bool" where
  "isJSONWhiteSpace c \<longleftrightarrow> c = 9 \<or> c = 10 \<or> c = 13 \<or> c = 32"

definition skipWS :: "jsstring \<Rightarrow> jsstring" where
  "skipWS s = dropWhile isJSONWhiteSpace s"

definition hexValue :: "nat \<Rightarrow> nat option" where
  "hexValue c =
     (if 48 \<le> c \<and> c \<le> 57 then Some (c - 48)
      else if 97 \<le> c \<and> c \<le> 102 then Some (c - 87)
      else if 65 \<le> c \<and> c \<le> 70 then Some (c - 55)
      else None)"

text \<open>The character after a backslash, other than \<open>u\<close>, and the code unit it stands for.\<close>

definition escapeChar :: "nat \<Rightarrow> nat option" where
  "escapeChar e =
     (if e = 34 then Some 34
      else if e = 92 then Some 92
      else if e = 47 then Some 47
      else if e = 98 then Some 8
      else if e = 102 then Some 12
      else if e = 110 then Some 10
      else if e = 114 then Some 13
      else if e = 116 then Some 9
      else None)"

definition hex4 :: "nat \<Rightarrow> nat \<Rightarrow> nat \<Rightarrow> nat \<Rightarrow> nat option" where
  "hex4 h1 h2 h3 h4 =
     (case hexValue h1 of None \<Rightarrow> None | Some a \<Rightarrow>
      case hexValue h2 of None \<Rightarrow> None | Some b \<Rightarrow>
      case hexValue h3 of None \<Rightarrow> None | Some d \<Rightarrow>
      case hexValue h4 of None \<Rightarrow> None | Some g \<Rightarrow>
        Some (4096 * a + 256 * b + 16 * d + g))"

text \<open>
  An escape sequence after its backslash: \<open>uXXXX\<close> or one of the short escapes. The
  result is the code unit and the input after the sequence.
\<close>

definition parseEscape :: "jsstring \<Rightarrow> (nat \<times> jsstring) option" where
  "parseEscape cs =
     (case cs of
        [] \<Rightarrow> None
      | e # r \<Rightarrow>
          if e = 117 then
            (case r of
               h1 # h2 # h3 # h4 # r' \<Rightarrow>
                 (case hex4 h1 h2 h3 h4 of None \<Rightarrow> None | Some u \<Rightarrow> Some (u, r'))
             | _ \<Rightarrow> None)
          else
            (case escapeChar e of None \<Rightarrow> None | Some u \<Rightarrow> Some (u, r)))"

definition consFst :: "nat \<Rightarrow> (jsstring \<times> jsstring) option \<Rightarrow> (jsstring \<times> jsstring) option" where
  "consFst u r = (case r of None \<Rightarrow> None | Some (str, t) \<Rightarrow> Some (u # str, t))"

text \<open>
  The characters of a string literal after its opening quote: the decoded string and
  the input after the closing quote; \<open>None\<close> for an unterminated string, a raw control
  character or a malformed escape.
\<close>

function parseStringBody :: "jsstring \<Rightarrow> (jsstring \<times> jsstring) option" where
  "parseStringBody [] = None"
| "parseStringBody (c # cs) =
     (if c = 34 then Some ([], cs)
      else if c = 92 then
        (case parseEscape cs of
           None \<Rightarrow> None
         | Some (u, r) \<Rightarrow> consFst u (parseStringBody r))
      else if c < 32 then None
      else consFst c (parseStringBody cs))"
  by pat_completeness auto
termination
proof (relation "measure length")
  fix c cs x u r
  assume "parseEscape cs = Some x" and "(u, r) = x"
  then have "parseEscape cs = Some (u, r)" by simp
  then have "length r < length cs"
    by (auto simp: parseEscape_def split: list.splits if_splits option.splits)
  then show "(r, c # cs) \<in> measure length" by simp
qed simp_all

text \<open>
  A JSON number: an optional minus, \<open>0\<close> or a digit run without a leading zero, an
  optional fraction with at least one digit, an optional exponent with at least one
  digit. The value is rounded to a double.
\<close>

definition parseNumber :: "jsstring \<Rightarrow> (jsnum \<times> jsstring) option" where
  "parseNumber s =
     (let neg = (s \<noteq> [] \<and> hd s = 45);
          u = (if neg then tl s else s);
          ip = (if u \<noteq> [] \<and> hd u = 48 then [48] else takeWhile isDigit u);
          r1 = drop (length ip) u;
          hasPoint = (r1 \<noteq> [] \<and> hd r1 = 46);
          fp = (if hasPoint then takeWhile isDigit (tl r1) else []);
          r2 = (if hasPoint then dropWhile isDigit (tl r1) else r1);
          hasExp = (r2 \<noteq> [] \<and> (hd r2 = 101 \<or> hd r2 = 69));
          ex = exponentPart r2;
          m = of_int (digitsValue (ip @ fp)) * pow10 (fst ex - int (length fp))
      in if ip = [] \<or> (hasPoint \<and> fp = []) \<or> (hasExp \<and> snd ex = r2) then None
         else Some (if neg then js_neg (fl m) else fl m, snd ex))"

text \<open>
  Values, array elements and object members. Every call spends one unit of fuel;
  \<open>JSON_parse\<close> below starts with more than any input can use.
\<close>

fun parseValue :: "nat \<Rightarrow> jsstring \<Rightarrow> parse_error + (json \<times> jsstring)"
  and parseElements :: "nat \<Rightarrow> jsstring \<Rightarrow> parse_error + (json list \<times> jsstring)"
  and parseMembers :: "nat \<Rightarrow> jsstring \<Rightarrow> parse_error + ((jsstring \<times> json) list \<times> jsstring)"
where
  "parseValue 0 s = Inl OutOfFuel"
| "parseValue (Suc n) s =
     (case s of
        [] \<Rightarrow> Inl SyntaxError
      | c # cs \<Rightarrow>
          if c = 123 then
            (let t = skipWS cs
             in if t \<noteq> [] \<and> hd t = 125 then Inr (JObj [], tl t)
                else case parseMembers n t of
                       Inl e \<Rightarrow> Inl e
                     | Inr (ms, r) \<Rightarrow> Inr (JObj ms, r))
          else if c = 91 then
            (let t = skipWS cs
             in if t \<noteq> [] \<and> hd t = 93 then Inr (JArr [], tl t)
                else case parseElements n t of
                       Inl e \<Rightarrow> Inl e
                     | Inr (vs, r) \<Rightarrow> Inr (JArr vs, r))
          else if c = 34 then
            (case parseStringBody cs of
               None \<Rightarrow> Inl SyntaxError
             | Some (str, r) \<Rightarrow> Inr (JStr str, r))
          else if startsWith s (js ''true'') then Inr (JBool True, drop 4 s)
          else if startsWith s (js ''false'') then Inr (JBool False, drop 5 s)
          else if startsWith s (js ''null'') then Inr (JNull, drop 4 s)
          else
            (case parseNumber s of
               None \<Rightarrow> Inl SyntaxError
             | Some (v, r) \<Rightarrow> Inr (JNum v, r)))"
| "parseElements 0 s = Inl OutOfFuel"
| "parseElements (Suc n) s =
     (case parseValue n s of
        Inl e \<Rightarrow> Inl e
      | Inr (v, r) \<Rightarrow>
          (case skipWS r of
             [] \<Rightarrow> Inl SyntaxError
           | c # cs \<Rightarrow>
               if c = 93 then Inr ([v], cs)
               else if c = 44 then
                 (case parseElements n (skipWS cs) of
                    Inl e \<Rightarrow> Inl e
                  | Inr (vs, r') \<Rightarrow> Inr (v # vs, r'))
               else Inl SyntaxError))"
| "parseMembers 0 s = Inl OutOfFuel"
| "parseMembers (Suc n) s =
     (case s of
        [] \<Rightarrow> Inl SyntaxError
      | q # qs \<Rightarrow>
          if q \<noteq> 34 then Inl SyntaxError
          else
            (case parseStringBody qs of
               None \<Rightarrow> Inl SyntaxError
             | Some (k, r0) \<Rightarrow>
                 (case skipWS r0 of
                    [] \<Rightarrow> Inl SyntaxError
                  | d # ds \<Rightarrow>
                      if d \<noteq> 58 then Inl SyntaxError
                      else
                        (case parseValue n (skipWS ds) of
                           Inl e \<Rightarrow> Inl e
                         | Inr (v, r) \<Rightarrow>
                             (case skipWS r of
                                [] \<Rightarrow> Inl SyntaxError
                              | c # cs \<Rightarrow>
                                  if c = 125 then Inr ([(k, v)], cs)
                                  else if c = 44 then
                                    (case parseMembers n (skipWS cs) of
                                       Inl e \<Rightarrow> Inl e
                                     | Inr (ms, r') \<Rightarrow> Inr ((k, v) # ms, r'))
                                  else Inl SyntaxError)))))"

text \<open>
  \<open>JSON.parse(text)\<close>: one value between optional white space, and nothing else.
  \<open>Inl SyntaxError\<close> is the \<open>SyntaxError\<close> that \<open>JSON.parse\<close> throws.
\<close>

definition JSON_parse :: "jsstring \<Rightarrow> parse_error + json" where
  "JSON_parse s =
     (case parseValue (2 * length s + 1) (skipWS s) of
        Inl e \<Rightarrow> Inl e
      | Inr (v, r) \<Rightarrow> if skipWS r = [] then Inr v else Inl SyntaxError)"

subsection \<open>JSON.stringify\<close>








text \<open>
  \<open>Number::toString\<close> on an integer of magnitude at most \<open>2^53\<close>: its decimal digits,
  with a minus sign when negative.
\<close>

fun digitsOf :: "nat \<Rightarrow> jsstring" where
  "digitsOf n = (if n < 10 then [48 + n] else digitsOf (n div 10) @ [48 + n mod 10])"

declare digitsOf.simps [simp del]




fun allSome :: "'a option list \<Rightarrow> 'a list option" where
  "allSome [] = Some []"
| "allSome (x # xs) =
     (case x of
        None \<Rightarrow> None
      | Some y \<Rightarrow> (case allSome xs of None \<Rightarrow> None | Some ys \<Rightarrow> Some (y # ys)))"







subsection \<open>Export and import of the profile\<close>


text \<open>
  The JSON values that are of type \<open>Profile\<close>: an object with exactly the nine keys,
  eight strings and an array of objects with exactly a Number \<open>id\<close> and a string
  \<open>text\<close>.
\<close>

definition getProp :: "(jsstring \<times> json) list \<Rightarrow> jsstring \<Rightarrow> json option" where
  "getProp members k = map_of (rev members) k"

definition stringProp :: "(jsstring \<times> json) list \<Rightarrow> jsstring \<Rightarrow> jsstring option" where
  "stringProp members k = (case getProp members k of Some (JStr v) \<Rightarrow> Some v | _ \<Rightarrow> None)"

definition achievementOfJson :: "json \<Rightarrow> Achievement option" where
  "achievementOfJson v =
     (case v of
        JObj members \<Rightarrow>
          if set (map fst members) = {js ''id'', js ''text''} then
            (case (getProp members (js ''id''), stringProp members (js ''text'')) of
               (Some (JNum v), Some t) \<Rightarrow> Some \<lparr>ach_id = v, ach_text = t\<rparr>
             | _ \<Rightarrow> None)
          else None
      | _ \<Rightarrow> None)"

definition profileKeys :: "jsstring list" where
  "profileKeys =
     [js ''name'', js ''email'', js ''phone'', js ''position'', js ''height'', js ''weight'',
      js ''gpa'', js ''testScores'', js ''achievements'']"

definition profileOfJson :: "json \<Rightarrow> Profile option" where
  "profileOfJson v =
     (case v of
        JObj members \<Rightarrow>
          if set (map fst members) = set profileKeys then
            (case allSome (map (stringProp members) (butlast profileKeys)) of
               Some [n, e, ph, po, h, w, g, t] \<Rightarrow>
                 (case getProp members (js ''achievements'') of
                    Some (JArr vs) \<Rightarrow>
                      (case allSome (map achievementOfJson vs) of
                         Some as \<Rightarrow>
                           Some \<lparr>name = n, email = e, phone = ph, position = po, height = h,
                                 weight = w, gpa = g, testScores = t, achievements = as\<rparr>
                       | None \<Rightarrow> None)
                  | _ \<Rightarrow> None)
             | _ \<Rightarrow> None)
          else None
      | _ \<Rightarrow> None)"

text \<open>
  \<^verbatim>\<open>reader.onload = event => {
    try {
      const obj = JSON.parse(event.target?.result as string);
      setProfile(obj as Profile);
    } catch (err) {
      alert('Invalid profile JSON');
    }
  };\<close>
  \<open>raw\<close> is the text of the chosen file. The cast \<open>obj as Profile\<close> checks nothing: a
  value that is not of type \<open>Profile\<close> is stored all the same, which is the outcome
  \<open>StoredUntyped\<close> (the state given with it keeps the other slots).
\<close>

datatype ImportOutcome =
    Alerted jsstring AppState
  | Stored AppState
  | StoredUntyped json AppState

definition importProfile :: "jsstring \<Rightarrow> AppState \<Rightarrow> ImportOutcome" where
  "importProfile raw s =
     (case JSON_parse raw of
        Inl e \<Rightarrow> Alerted (js ''Invalid profile JSON'') s
      | Inr obj \<Rightarrow>
          (case profileOfJson obj of
             Some p \<Rightarrow> Stored (s\<lparr>profile := p\<rparr>)
           | None \<Rightarrow> StoredUntyped obj s))"

subsection \<open>The value that an exported text denotes\<close>





text \<open>
  \<open>parsesTo n txt v\<close>: with \<open>n\<close> units of fuel or more, \<open>parseValue\<close> reads the value \<open>v\<close>
  from \<open>txt\<close> and stops at its end, whatever follows, provided that what follows is
  nothing, a comma or a line feed (\<open>okRest\<close>), as it is in a text that
  \<open>JSON.stringify\<close> writes with a gap. \<open>memberText\<close> is one member of an object as
  \<open>serializeObject\<close> writes it.
\<close>

definition okRest :: "jsstring \<Rightarrow> bool" where
  "okRest rest \<longleftrightarrow> rest = [] \<or> hd rest = 44 \<or> hd rest = 10"



section \<open>The fit score of the specification\<close>

text \<open>
  The fit score as the specification words it: \<open>round(clamp(gpa / 4 * 100, 0, 100))\<close> on
  the parsed number, and 50 when the text does not parse.
\<close>

definition clamp100 :: "jsnum \<Rightarrow> jsnum" where
  "clamp100 v = Math_min 100 (Math_max 0 v)"

definition fitScoreSpec :: "jsstring \<Rightarrow> jsnum" where
  "fitScoreSpec g =
     (if parseFloat g = NaN then Fin 50
      else Math_round (clamp100 (js_mul (js_div (parseFloat g) 4) 100)))"

section \<open>The rule table of the specification\<close>





section \<open>Sample data\<close>

definition sampleSchools :: "School list" where
  "sampleSchools =
     [\<lparr>school_id = 1, school_name = js ''State'', division = js ''NCAA DI'', contact = [],
       fitScore = Fin 88\<rparr>,
      \<lparr>school_id = 2, school_name = js ''Tech'', division = js ''NAIA'', contact = [],
       fitScore = Fin 50\<rparr>]"

definition sampleOutreach :: "Outreach list" where
  "sampleOutreach =
     [\<lparr>outreach_id = 10, schoolId = 1, date = js ''2024-01-05'', message = js ''intro''\<rparr>,
      \<lparr>outreach_id = 11, schoolId = 2, date = js ''2024-01-06'', message = js ''intro''\<rparr>,
      \<lparr>outreach_id = 12, schoolId = 1, date = js ''2024-01-20'', message = js ''follow up''\<rparr>]"

definition sampleState :: AppState where
  "sampleState =
     \<lparr>profile = emptyProfile, schools = sampleSchools, outreach = sampleOutreach,
      botMessages = [], botName = js ''Bot''\<rparr>"

definition fullProfile :: "Achievement list \<Rightarrow> Profile" where
  "fullProfile as =
     \<lparr>name = js ''Sam Lee'', email = js ''sam@example.org'', phone = js ''555-0100'',
      position = js ''QB'', height = js ''6-2'', weight = js ''200'', gpa = js ''3.5'',
      testScores = js ''1300'', achievements = as\<rparr>"




section \<open>Facts about strings\<close>

lemma dropWhile_all_iff: "(\<forall>x \<in> set (dropWhile P s). P x) \<longleftrightarrow> dropWhile P s = []"
proof
  assume a: "\<forall>x \<in> set (dropWhile P s). P x"
  show "dropWhile P s = []"
  proof (rule ccontr)
    assume n: "dropWhile P s \<noteq> []"
    then have "\<not> P (hd (dropWhile P s))" by (rule hd_dropWhile)
    moreover from n have "hd (dropWhile P s) \<in> set (dropWhile P s)" by simp
    ultimately show False using a by blast
  qed
qed (auto dest: set_dropWhileD)

lemma trim_empty_iff: "trim s = [] \<longleftrightarrow> (\<forall>c \<in> set s. isWhiteSpace c)"
  by (simp add: trim_def dropWhile_eq_Nil_conv dropWhile_all_iff)



section \<open>Facts about numbers\<close>

lemma pow2_powi: "pow2 e = 2 powi e"
  by (simp add: pow2_def power_int_def inverse_eq_divide power_one_over)

lemma pow2_pos [simp]: "0 < pow2 e"
  by (simp add: pow2_def)

lemma pow2_add: "pow2 (a + b) = pow2 a * pow2 b"
  by (simp add: pow2_powi power_int_add)

lemma pow2_diff: "pow2 (a - b) = pow2 a / pow2 b"
  by (simp add: pow2_powi power_int_diff)

lemma pow2_less_iff [simp]: "pow2 a < pow2 b \<longleftrightarrow> a < b"
proof
  assume "pow2 a < pow2 b"
  show "a < b"
  proof (rule ccontr)
    assume "\<not> a < b"
    then have "pow2 b \<le> pow2 a"
      unfolding pow2_powi by (intro power_int_increasing) auto
    with \<open>pow2 a < pow2 b\<close> show False by simp
  qed
next
  assume "a < b"
  then show "pow2 a < pow2 b"
    unfolding pow2_powi by (intro power_int_strict_increasing) auto
qed

lemma pow2_le_iff [simp]: "pow2 a \<le> pow2 b \<longleftrightarrow> a \<le> b"
  using pow2_less_iff [of b a] by (simp only: linorder_not_less [symmetric])

lemma bitlen_pow2_bounds:
  assumes "0 < (p::int)"
  shows "pow2 (bitlen p - 1) \<le> of_int p" and "of_int p < pow2 (bitlen p)"
proof -
  from assms have b: "1 \<le> bitlen p"
    by (simp add: bitlen_alt_def)
  from bitlen_bounds [OF assms]
  have l: "2 ^ nat (bitlen p - 1) \<le> p" and u: "p < 2 ^ nat (bitlen p)" by simp_all
  from l have "(of_int (2 ^ nat (bitlen p - 1)) :: rat) \<le> of_int p"
    by (simp only: of_int_le_iff)
  with b show "pow2 (bitlen p - 1) \<le> of_int p"
    by (simp add: pow2_def)
  from u have "(of_int p :: rat) < of_int (2 ^ nat (bitlen p))"
    by (simp only: of_int_less_iff)
  with b show "of_int p < pow2 (bitlen p)"
    by (simp add: pow2_def)
qed

lemma ilog2_bounds:
  assumes "0 < x"
  shows "pow2 (ilog2 x) \<le> x \<and> x < pow2 (ilog2 x + 1)"
proof -
  obtain p q where pq: "quotient_of x = (p, q)" by (cases "quotient_of x")
  then have q: "0 < q" and x: "x = of_int p / of_int q"
    by (simp_all add: quotient_of_denom_pos quotient_of_div)
  from assms x q have p: "0 < p"
    by (simp add: zero_less_divide_iff)
  define d where "d = bitlen p - bitlen q"
  note P = bitlen_pow2_bounds [OF p] and Q = bitlen_pow2_bounds [OF q]
  have qpos: "(0::rat) < of_int q" using q by simp
  have up: "x < pow2 (d + 1)"
  proof -
    have "of_int p < pow2 (bitlen p)" by (rule P)
    also have "\<dots> = pow2 (d + 1) * pow2 (bitlen q - 1)"
      by (simp add: d_def flip: pow2_add)
    also have "\<dots> \<le> pow2 (d + 1) * of_int q"
      using Q(1) by (simp add: mult_left_mono)
    finally show ?thesis using qpos by (simp add: x pos_divide_less_eq)
  qed
  have lo: "pow2 (d - 1) < x"
  proof -
    have "pow2 (d - 1) * of_int q < pow2 (d - 1) * pow2 (bitlen q)"
      using Q(2) by (simp add: mult_strict_left_mono)
    also have "\<dots> = pow2 (bitlen p - 1)"
      by (simp add: d_def flip: pow2_add)
    also have "\<dots> \<le> of_int p" by (rule P)
    finally show ?thesis using qpos by (simp add: x pos_less_divide_eq)
  qed
  have il: "ilog2 x = (if pow2 d \<le> x then d else d - 1)"
    by (simp add: ilog2_def pq d_def Let_def)
  show ?thesis
  proof (cases "pow2 d \<le> x")
    case True
    with il up show ?thesis by simp
  next
    case False
    with il lo show ?thesis by simp
  qed
qed

lemma ilog2_unique:
  assumes "pow2 e \<le> x" and "x < pow2 (e + 1)"
  shows "ilog2 x = e"
proof -
  have "0 < x" using assms(1) pow2_pos [of e] by linarith
  from ilog2_bounds [OF this]
  have l: "pow2 (ilog2 x) \<le> x" and u: "x < pow2 (ilog2 x + 1)" by simp_all
  from l assms(2) have "pow2 (ilog2 x) < pow2 (e + 1)" by (rule le_less_trans)
  moreover from assms(1) u have "pow2 e < pow2 (ilog2 x + 1)" by (rule le_less_trans)
  ultimately show ?thesis by simp
qed

lemma roundTiesToEven_of_int [simp]: "roundTiesToEven (of_int k) = k"
  by (simp add: roundTiesToEven_def)

lemma roundTiesToEven_nonneg: "0 \<le> x \<Longrightarrow> 0 \<le> roundTiesToEven x"
  by (auto simp add: roundTiesToEven_def Let_def)

lemma fl_pos_eval:
  assumes "pow2 e \<le> x" and "x < pow2 (e + 1)"
  shows "fl_pos x =
     (let q = max e (- 1022) - 52;
          y = of_int (roundTiesToEven (x / pow2 q)) * pow2 q
      in if pow2 1024 \<le> y then PInf else Fin y)"
  by (simp add: fl_pos_def ilog2_unique [OF assms])

lemma fl_pos_exact:
  assumes x: "x = of_int m * pow2 q" and m: "0 < m" "m < 2 ^ 53"
    and q: "- 1074 \<le> q" and r: "x < pow2 1024"
  shows "fl_pos x = Fin x"
proof -
  have xpos: "0 < x" using m by (simp add: x)
  define e where "e = ilog2 x"
  from ilog2_bounds [OF xpos] have l: "pow2 e \<le> x" and u: "x < pow2 (e + 1)"
    by (simp_all add: e_def)
  define q' where "q' = max e (- 1022) - 52"
  have "of_int m < (2 ^ 53 :: rat)"
    using m(2) by (metis of_int_less_iff of_int_numeral of_int_power)
  then have "x < 2 ^ 53 * pow2 q"
    by (simp add: x)
  also have "\<dots> = pow2 (53 + q)"
    by (simp add: pow2_add) (simp add: pow2_def)
  finally have "x < pow2 (53 + q)" .
  with l have "pow2 e < pow2 (53 + q)" by (rule le_less_trans)
  then have "e < 53 + q" by simp
  with q have qq: "q' \<le> q" by (simp add: q'_def)
  have "x / pow2 q' = of_int m * pow2 (q - q')"
    by (simp add: x pow2_diff)
  also have "pow2 (q - q') = of_int (2 ^ nat (q - q'))"
    using qq by (simp add: pow2_def)
  finally have "x / pow2 q' = of_int (m * 2 ^ nat (q - q'))"
    by simp
  then have "roundTiesToEven (x / pow2 q') = m * 2 ^ nat (q - q')"
    by (simp only: roundTiesToEven_of_int)
  then have "of_int (roundTiesToEven (x / pow2 q')) * pow2 q' = of_int m * (of_int (2 ^ nat (q - q')) * pow2 q')"
    by simp
  also have "of_int (2 ^ nat (q - q')) * pow2 q' = pow2 (q - q') * pow2 q'"
    using qq by (simp add: pow2_def)
  also have "\<dots> = pow2 q"
    by (simp flip: pow2_add)
  finally have y: "of_int (roundTiesToEven (x / pow2 q')) * pow2 q' = x"
    by (simp add: x)
  show ?thesis
    using r by (simp add: fl_pos_def Let_def y e_def [symmetric] q'_def [symmetric])
qed

lemma fl_exact:
  assumes x: "x = of_int m * pow2 q" and m: "\<bar>m\<bar> < 2 ^ 53"
    and q: "- 1074 \<le> q" and r: "\<bar>x\<bar> < pow2 1024"
  shows "fl x = Fin x"
proof -
  consider "m = 0" | "0 < m" | "m < 0" by linarith
  then show ?thesis
  proof cases
    case 1
    then show ?thesis by (simp add: fl_def x)
  next
    case 2
    then have xp: "0 < x" by (simp add: x)
    from m 2 have mm: "m < 2 ^ 53" by simp
    from r xp have rr: "x < pow2 1024" by simp
    have "fl_pos x = Fin x"
      by (rule fl_pos_exact [OF x 2 mm q rr])
    with xp show ?thesis by (simp add: fl_def)
  next
    case 3
    then have neg: "x < 0" by (simp add: x mult_neg_pos)
    have nx: "- x = of_int (- m) * pow2 q" by (simp add: x)
    from 3 have mp: "0 < - m" by simp
    from m 3 have mm: "- m < 2 ^ 53" by simp
    from r neg have rr: "- x < pow2 1024" by simp
    have "fl_pos (- x) = Fin (- x)"
      by (rule fl_pos_exact [OF nx mp mm q rr])
    with neg show ?thesis by (simp add: fl_def)
  qed
qed

lemma abs_divide_le: "\<bar>a / 2 ^ k :: rat\<bar> \<le> \<bar>a\<bar>"
proof -
  have "\<bar>a\<bar> / 2 ^ k \<le> \<bar>a\<bar>"
    by (simp add: pos_divide_le_eq mult_le_cancel_left1)
  then show ?thesis by (simp add: abs_divide)
qed

lemma p53: "(2 ^ 53 :: rat) < pow2 1024"
proof -
  have "pow2 53 < pow2 1024" by simp
  then show ?thesis by (simp add: pow2_def)
qed

lemma fl_dyadic:
  assumes "\<bar>m\<bar> < 2 ^ 53" and "k \<le> 1074"
  shows "fl (of_int m / 2 ^ k) = Fin (of_int m / 2 ^ k)"
proof (rule fl_exact [where m = m and q = "- int k"])
  show "(of_int m / 2 ^ k :: rat) = of_int m * pow2 (- int k)"
    by (simp add: pow2_def divide_inverse power_one_over)
  show "\<bar>m\<bar> < 2 ^ 53" by (rule assms)
  show "- 1074 \<le> - int k" using assms(2) by simp
  have "\<bar>of_int m :: rat\<bar> < 2 ^ 53"
    using assms(1) by (metis of_int_abs of_int_less_iff of_int_numeral of_int_power)
  moreover have "\<bar>of_int m / 2 ^ k :: rat\<bar> \<le> \<bar>of_int m\<bar>"
    by (rule abs_divide_le)
  ultimately have "\<bar>of_int m / 2 ^ k :: rat\<bar> < 2 ^ 53"
    by (rule le_less_trans [rotated])
  also have "\<dots> < pow2 1024" by (rule p53)
  finally show "\<bar>of_int m / 2 ^ k :: rat\<bar> < pow2 1024" .
qed

lemma fl_of_int:
  assumes "\<bar>i\<bar> \<le> 2 ^ 53"
  shows "fl (of_int i) = Fin (of_int i)"
proof (cases "\<bar>i\<bar> < 2 ^ 53")
  case True
  from fl_dyadic [OF True, of 0] show ?thesis by simp
next
  case False
  with assms have "\<bar>i\<bar> = 2 ^ 53" by simp
  then consider "i = 2 ^ 53" | "i = - (2 ^ 53)" by (auto simp: abs_if split: if_splits)
  then show ?thesis
  proof cases
    case 1
    have "fl (of_int (2 ^ 52) * pow2 1) = Fin (of_int (2 ^ 52) * pow2 1)"
      by (rule fl_exact [where m = "2 ^ 52" and q = 1]) (simp_all add: pow2_def)
    then show ?thesis by (simp add: 1 pow2_def)
  next
    case 2
    have "fl (of_int (- (2 ^ 52)) * pow2 1) = Fin (of_int (- (2 ^ 52)) * pow2 1)"
      by (rule fl_exact [where m = "- (2 ^ 52)" and q = 1]) (simp_all add: pow2_def)
    then show ?thesis by (simp add: 2 pow2_def)
  qed
qed

section \<open>Removing a school\<close>

text \<open>
  C2. \<open>removeSchool S\<close> keeps exactly the schools whose id is not \<open>S\<close> and exactly the
  outreach entries whose \<open>schoolId\<close> is not \<open>S\<close>, in their order: the number of entries
  left is the number before minus the number that referred to \<open>S\<close>, no school with id
  \<open>S\<close> and no entry referring to \<open>S\<close> is left, and when every entry referred to an
  existing school before, every entry left refers to a school that is left.
\<close>

theorem removeSchool_cascade:
  "schools (removeSchool S s) = filter (\<lambda>sc. school_id sc \<noteq> S) (schools s)
   \<and> outreach (removeSchool S s) = filter (\<lambda>e. schoolId e \<noteq> S) (outreach s)
   \<and> length (outreach (removeSchool S s)) + length (filter (\<lambda>e. schoolId e = S) (outreach s))
       = length (outreach s)
   \<and> length (outreach (removeSchool S s))
       = length (outreach s) - length (filter (\<lambda>e. schoolId e = S) (outreach s))
   \<and> (\<forall>sc \<in> set (schools (removeSchool S s)). school_id sc \<noteq> S)
   \<and> (\<forall>e \<in> set (outreach (removeSchool S s)). schoolId e \<noteq> S)
   \<and> ((\<forall>e \<in> set (outreach s). schoolId e \<in> school_id ` set (schools s)) \<longrightarrow>
        (\<forall>e \<in> set (outreach (removeSchool S s)).
            schoolId e \<in> school_id ` set (schools (removeSchool S s))))"
proof -
  have len: "length (filter (\<lambda>e. schoolId e \<noteq> S) xs) + length (filter (\<lambda>e. schoolId e = S) xs)
      = length xs" for xs :: "Outreach list"
    by (induction xs) auto
  have "length (outreach (removeSchool S s)) + length (filter (\<lambda>e. schoolId e = S) (outreach s))
       = length (outreach s)"
    using len [of "outreach s"] by (simp add: removeSchool_def)
  moreover have "(\<forall>e \<in> set (outreach s). schoolId e \<in> school_id ` set (schools s)) \<longrightarrow>
        (\<forall>e \<in> set (outreach (removeSchool S s)).
            schoolId e \<in> school_id ` set (schools (removeSchool S s)))"
    by (auto simp: removeSchool_def)
  ultimately show ?thesis
    by (simp add: removeSchool_def)
qed

theorem removeSchool_cascade_witness:
  "map outreach_id (outreach (removeSchool 1 sampleState)) = [11]
   \<and> map school_id (schools (removeSchool 1 sampleState)) = [2]
   \<and> length (outreach (removeSchool 1 sampleState)) = 3 - 2"
  using removeSchool_cascade [of 1 sampleState]
  by (simp add: removeSchool_def sampleState_def sampleSchools_def sampleOutreach_def)

section \<open>The response engine\<close>




section \<open>The fit score is a snapshot\<close>

lemma schools_handleProfileChange: "schools (handleProfileChange c s) = schools s"
  by (simp add: handleProfileChange_def)

lemma schools_foldl_handleProfileChange:
  "schools (foldl (\<lambda>st c. handleProfileChange c st) s cs) = schools s"
  by (induction cs arbitrary: s) (simp_all add: schools_handleProfileChange)

text \<open>
  C3. A change of a profile field, and any sequence of such changes, leaves the list
  of schools as it is; \<open>addSchool\<close> with a name that is not blank appends a school whose
  \<open>fitScore\<close> is \<open>computeFitScore\<close> of the GPA in the profile at the call, and after any
  later profile changes (of the GPA too) the stored fit scores are the earlier ones
  followed by that value.
\<close>

theorem fitScore_snapshot:
  "schools (handleProfileChange c s) = schools s
   \<and> schools (foldl (\<lambda>st c. handleProfileChange c st) s cs) = schools s
   \<and> (trim nm \<noteq> [] \<longrightarrow>
        schools (addSchool now nm dv ct s) =
          schools s @ [\<lparr>school_id = now, school_name = nm, division = dv, contact = ct,
                        fitScore = computeFitScore (gpa (profile s))\<rparr>]
        \<and> map fitScore (schools (foldl (\<lambda>st c. handleProfileChange c st)
                                    (addSchool now nm dv ct s) cs)) =
            map fitScore (schools s) @ [computeFitScore (gpa (profile s))])"
  by (simp add: schools_handleProfileChange schools_foldl_handleProfileChange addSchool_def)

lemma computeFitScore_empty: "computeFitScore [] = Fin 50"
  by (simp add: computeFitScore_def parseFloat_def trimStart_def strUnsignedDecimalLiteral_def
      decimalValue_def js_def)

theorem fitScore_snapshot_witness:
  "map fitScore (schools (foldl (\<lambda>st c. handleProfileChange c st)
      (addSchool 7 (js ''Tech'') (js ''NAIA'') [] sampleState)
      [Set_gpa (js ''4.0''), Set_name (js ''Sam'')])) = [Fin 88, Fin 50, Fin 50]"
proof -
  have t: "trim (js ''Tech'') \<noteq> []"
    by (simp add: trim_def js_def isWhiteSpace_def)
  have g: "gpa (profile sampleState) = []"
    by (simp add: sampleState_def emptyProfile_def)
  from fitScore_snapshot [of _ sampleState "[Set_gpa (js ''4.0''), Set_name (js ''Sam'')]"
      "js ''Tech''" 7 "js ''NAIA''" "[]"] t
  show ?thesis
    by (simp add: g computeFitScore_empty) (simp add: sampleState_def sampleSchools_def)
qed

section \<open>Sending a message to the bot\<close>

text \<open>
  C5, as amended. For an input that is not blank, \<open>sendToBot\<close> appends exactly two
  messages: the user's text as typed, with the first clock reading as id, then the
  reply, with the second clock reading plus one as id. The user's id is strictly below
  the reply's exactly when the second reading is not earlier than the first, and the two
  ids are equal exactly when the clock went back by one between the readings; when both
  messages are created in the same instant the ids are distinct and in order. For an
  input of white space only (the empty one included) the state is unchanged.
\<close>

theorem sendToBot_appends:
  "(trim userText \<noteq> [] \<longrightarrow>
      (\<exists>u b. botMessages (sendToBot hostLower t1 t2 userText s) = botMessages s @ [u, b]
         \<and> msg_from u = FromUser \<and> msg_text u = userText \<and> msg_id u = t1
         \<and> msg_from b = FromBot \<and> msg_text b = respond hostLower (botName s) userText
         \<and> msg_id b = t2 + 1
         \<and> (msg_id u < msg_id b \<longleftrightarrow> t1 \<le> t2)
         \<and> (msg_id u = msg_id b \<longleftrightarrow> t2 = t1 - 1)))
   \<and> (trim userText \<noteq> [] \<longrightarrow>
      (\<exists>u b. botMessages (sendToBot hostLower t1 t1 userText s) = botMessages s @ [u, b]
         \<and> msg_id u < msg_id b))
   \<and> ((\<forall>c \<in> set userText. isWhiteSpace c) \<longrightarrow> sendToBot hostLower t1 t2 userText s = s)
   \<and> (trim userText = [] \<longleftrightarrow> (\<forall>c \<in> set userText. isWhiteSpace c))"
proof -
  have "\<exists>u b. botMessages (sendToBot hostLower t1 t2 userText s) = botMessages s @ [u, b]
         \<and> msg_from u = FromUser \<and> msg_text u = userText \<and> msg_id u = t1
         \<and> msg_from b = FromBot \<and> msg_text b = respond hostLower (botName s) userText
         \<and> msg_id b = t2 + 1
         \<and> (msg_id u < msg_id b \<longleftrightarrow> t1 \<le> t2)
         \<and> (msg_id u = msg_id b \<longleftrightarrow> t2 = t1 - 1)"
    if "trim userText \<noteq> []"
    using that
    by (intro exI [of _ "\<lparr>msg_id = t1, msg_from = FromUser, msg_text = userText\<rparr>"]
        exI [of _ "\<lparr>msg_id = t2 + 1, msg_from = FromBot,
                    msg_text = respond hostLower (botName s) userText\<rparr>"])
       (auto simp: sendToBot_def)
  moreover have "\<exists>u b. botMessages (sendToBot hostLower t1 t1 userText s) = botMessages s @ [u, b]
         \<and> msg_id u < msg_id b"
    if "trim userText \<noteq> []"
    using that
    by (intro exI [of _ "\<lparr>msg_id = t1, msg_from = FromUser, msg_text = userText\<rparr>"]
        exI [of _ "\<lparr>msg_id = t1 + 1, msg_from = FromBot,
                    msg_text = respond hostLower (botName s) userText\<rparr>"])
       (auto simp: sendToBot_def)
  moreover have "(\<forall>c \<in> set userText. isWhiteSpace c) \<longrightarrow>
      sendToBot hostLower t1 t2 userText s = s"
    by (simp add: sendToBot_def trim_empty_iff)
  ultimately show ?thesis
    by (simp add: trim_empty_iff)
qed

text \<open>The inputs of the witness are ASCII, so the host's tables are not consulted.\<close>

theorem sendToBot_appends_witness:
  "botMessages (sendToBot id 1000 1000 (js ''Hi'') sampleState) =
     [\<lparr>msg_id = 1000, msg_from = FromUser, msg_text = js ''Hi''\<rparr>,
      \<lparr>msg_id = 1001, msg_from = FromBot, msg_text = greeting (js ''Bot'')\<rparr>]
   \<and> sendToBot id 1000 1000 (js ''  '') sampleState = sampleState"
proof -
  have t: "trim (js ''Hi'') \<noteq> []"
    by (simp add: trim_def js_def isWhiteSpace_def)
  have w: "\<forall>c \<in> set (js ''  ''). isWhiteSpace c"
    by (simp add: js_def isWhiteSpace_def)
  have r: "respond id (js ''Bot'') (js ''Hi'') = greeting (js ''Bot'')"
    by (simp add: respond_def js_def toLowerCase_def asciiLower_def)
  have b: "botName sampleState = js ''Bot''" "botMessages sampleState = []"
    by (simp_all add: sampleState_def)
  from sendToBot_appends [of "js ''Hi''" id 1000 1000 sampleState] t
  obtain u b where
    "botMessages (sendToBot id 1000 1000 (js ''Hi'') sampleState) = botMessages sampleState @ [u, b]"
    "msg_from u = FromUser" "msg_text u = js ''Hi''" "msg_id u = 1000"
    "msg_from b = FromBot" "msg_text b = respond id (botName sampleState) (js ''Hi'')"
    "msg_id b = 1000 + 1"
    by blast
  moreover from sendToBot_appends [of "js ''  ''" id 1000 1000 sampleState] w
  have "sendToBot id 1000 1000 (js ''  '') sampleState = sampleState" by blast
  ultimately show ?thesis
    by (simp add: b r)
qed

text \<open>
  C5, as stated, fails: the two ids come from two readings of the clock, and when the
  clock is set back by a millisecond between them the reply gets the user's id.
\<close>

theorem sendToBot_clock_back:
  "map msg_id (botMessages (sendToBot id 1000 999 (js ''Hi'') sampleState)) = [1000, 1000]"
  by (simp add: sendToBot_def sampleState_def trim_def js_def isWhiteSpace_def)

section \<open>Rounding to a double, evaluated\<close>

lemma roundTiesToEven_le: "x \<le> of_int k \<Longrightarrow> roundTiesToEven x \<le> k"
proof -
  assume a: "x \<le> of_int k"
  then have f: "\<lfloor>x\<rfloor> \<le> k" by (simp add: floor_le_iff) 
  show ?thesis
  proof (cases "x = of_int \<lfloor>x\<rfloor>")
    case True
    then have "roundTiesToEven x = \<lfloor>x\<rfloor>"
      by (metis roundTiesToEven_of_int)
    with f show ?thesis by simp
  next
    case False
    then have "of_int \<lfloor>x\<rfloor> < x"
      by (metis of_int_floor_le order_less_le)
    with a have "(of_int \<lfloor>x\<rfloor> :: rat) < of_int k" by linarith
    then have "\<lfloor>x\<rfloor> < k" by (simp only: of_int_less_iff)
    then show ?thesis by (auto simp: roundTiesToEven_def Let_def)
  qed
qed

lemma roundTiesToEven_eqI:
  assumes "of_int k - 1 / 2 < x" and "x < of_int k + 1 / 2"
  shows "roundTiesToEven x = k"
proof (cases "x < of_int k")
  case True
  with assms(1) have "\<lfloor>x\<rfloor> = k - 1"
    by (intro floor_unique) auto
  with assms(1) show ?thesis
    by (simp add: roundTiesToEven_def Let_def)
next
  case False
  with assms(2) have "\<lfloor>x\<rfloor> = k"
    by (intro floor_unique) auto
  with assms(2) show ?thesis
    by (simp add: roundTiesToEven_def Let_def)
qed

lemma fl_eval:
  assumes "pow2 e \<le> x" and "x < pow2 (e + 1)" and "- 1022 \<le> e" and "e \<le> 1022"
  shows "fl x = Fin (of_int (roundTiesToEven (x / pow2 (e - 52))) * pow2 (e - 52))"
proof -
  have xp: "0 < x" using assms(1) pow2_pos [of e] by linarith
  have e1: "e + 1 - (e - 52) = 53" by simp
  have e2: "53 + (e - 52) = e + 1" by simp
  have "x / pow2 (e - 52) < pow2 (e + 1) / pow2 (e - 52)"
    using assms(2) by (simp add: divide_strict_right_mono)
  also have "\<dots> = pow2 53" by (simp only: pow2_diff [symmetric] e1)
  also have "\<dots> = of_int (2 ^ 53)" by (simp add: pow2_def)
  finally have "roundTiesToEven (x / pow2 (e - 52)) \<le> 2 ^ 53"
    by (intro roundTiesToEven_le) simp
  then have "(of_int (roundTiesToEven (x / pow2 (e - 52))) :: rat) \<le> of_int (2 ^ 53)"
    by (simp only: of_int_le_iff)
  then have "of_int (roundTiesToEven (x / pow2 (e - 52))) * pow2 (e - 52) \<le> of_int (2 ^ 53) * pow2 (e - 52)"
    by (simp add: mult_right_mono)
  also have "(of_int (2 ^ 53) :: rat) = pow2 53" by (simp add: pow2_def)
  also have "pow2 53 * pow2 (e - 52) = pow2 (e + 1)" by (simp only: pow2_add [symmetric] e2)
  also have "\<dots> < pow2 1024" using assms(4) by simp
  finally have "\<not> pow2 1024 \<le> of_int (roundTiesToEven (x / pow2 (e - 52))) * pow2 (e - 52)"
    by simp
  moreover have "max e (- 1022) = e" using assms(3) by simp
  ultimately have "fl_pos x = Fin (of_int (roundTiesToEven (x / pow2 (e - 52))) * pow2 (e - 52))"
    by (simp add: fl_pos_eval [OF assms(1,2)] Let_def)
  with xp show ?thesis by (simp add: fl_def)
qed

lemma fl_evalI:
  assumes "pow2 e \<le> x" and "x < pow2 (e + 1)" and "- 1022 \<le> e" and "e \<le> 1022"
    and "of_int m - 1 / 2 < x / pow2 (e - 52)" and "x / pow2 (e - 52) < of_int m + 1 / 2"
  shows "fl x = Fin (of_int m * pow2 (e - 52))"
  by (simp add: fl_eval [OF assms(1-4)] roundTiesToEven_eqI [OF assms(5,6)])

lemma fl_10_9: "fl (10 / 9) = Fin (2501999792983609 / 2251799813685248)"
  using fl_evalI [of 0 "10 / 9" 5003999585967218] by (simp add: pow2_def)

lemma fl_10_9_100: "fl (2501999792983609 / 2251799813685248 * 100) = Fin (3909374676536889 / 35184372088832)"
  using fl_evalI [of 6 "2501999792983609 / 2251799813685248 * 100" 7818749353073778] by (simp add: pow2_def)

lemma fl_8_9: "fl (8 / 9) = Fin (2001599834386887 / 2251799813685248)"
  using fl_evalI [of "- 1" "8 / 9" 8006399337547548] by (simp add: pow2_def)

lemma fl_8_9_100: "fl (2001599834386887 / 2251799813685248 * 100) = Fin (3127499741229511 / 35184372088832)"
  using fl_evalI [of 6 "2001599834386887 / 2251799813685248 * 100" 6254999482459022] by (simp add: pow2_def)

section \<open>The parser never runs out of fuel\<close>

lemma length_skipWS: "length (skipWS s) \<le> length s"
  by (simp add: skipWS_def length_dropWhile_le)

lemma skipWS_Cons_length: "skipWS r = c # cs \<Longrightarrow> length cs < length r"
  using length_skipWS [of r] by simp

lemma consFst_Some: "consFst u x = Some (str, t) \<longleftrightarrow> (\<exists>str'. x = Some (str', t) \<and> str = u # str')"
  by (auto simp: consFst_def split: option.splits)

lemma parseEscape_length: "parseEscape cs = Some (u, r) \<Longrightarrow> length r < length cs"
  by (auto simp: parseEscape_def split: list.splits if_splits option.splits)

lemma parseStringBody_length:
  "parseStringBody s = Some (str, r) \<Longrightarrow> length r < length s"
proof (induction s arbitrary: str r rule: parseStringBody.induct)
  case 1
  then show ?case by simp
next
  case (2 c cs)
  from "2.prems" consider
      (quote) "c = 34" "r = cs"
    | (esc) u r1 str' where "c \<noteq> 34" "c = 92" "parseEscape cs = Some (u, r1)"
        "parseStringBody r1 = Some (str', r)"
    | (raw) str' where "c \<noteq> 34" "c \<noteq> 92" "\<not> c < 32" "parseStringBody cs = Some (str', r)"
    by (auto simp: consFst_Some split: if_splits option.splits)
  then show ?case
  proof cases
    case quote
    then show ?thesis by simp
  next
    case esc
    from "2.IH"(1) [OF esc(1,2,3) refl esc(4)] parseEscape_length [OF esc(3)]
    show ?thesis by simp
  next
    case raw
    from "2.IH"(2) [OF raw] show ?thesis by simp
  qed
qed

lemma exponentPart_length: "length (snd (exponentPart s)) \<le> length s"
proof -
  have "length (dropWhile isDigit (tl t)) \<le> length t" for t :: jsstring
    using length_dropWhile_le [of isDigit "tl t"] by simp
  moreover have "length (dropWhile isDigit t) \<le> length t" for t :: jsstring
    by (rule length_dropWhile_le)
  ultimately show ?thesis
    by (auto simp: exponentPart_def Let_def le_SucI split: list.splits)
qed

lemma parseNumber_length:
  assumes "parseNumber s = Some (v, r)"
  shows "length r < length s"
proof -
  define u where "u = (if s \<noteq> [] \<and> hd s = 45 then tl s else s)"
  define ip where "ip = (if u \<noteq> [] \<and> hd u = 48 then [48] else takeWhile isDigit u)"
  define r1 where "r1 = drop (length ip) u"
  define r2 where "r2 = (if r1 \<noteq> [] \<and> hd r1 = 46 then dropWhile isDigit (tl r1) else r1)"
  from assms have ip: "ip \<noteq> []" and r: "r = snd (exponentPart r2)"
    by (auto simp: parseNumber_def Let_def u_def ip_def r1_def r2_def split: if_splits)
  have "length ip \<le> length u"
    by (auto simp: ip_def length_takeWhile_le Suc_le_eq)
  with ip have "length r1 < length u"
    by (cases ip) (auto simp: r1_def)
  moreover have "length u \<le> length s" by (simp add: u_def)
  moreover have "length r2 \<le> length r1"
    using length_dropWhile_le [of isDigit "tl r1"] by (auto simp: r2_def)
  moreover have "length r \<le> length r2"
    unfolding r by (rule exponentPart_length)
  ultimately show ?thesis by linarith
qed

lemma startsWith_length: "startsWith s t \<Longrightarrow> length t \<le> length s"
  by (induction s t rule: startsWith.induct) auto

lemma parseValue_fuel_step:
  assumes E: "\<And>t. length t \<le> length cs \<Longrightarrow> parseElements n t \<noteq> Inl OutOfFuel \<and>
      (\<forall>v r. parseElements n t = Inr (v, r) \<longrightarrow> length r < length t)"
    and M: "\<And>t. length t \<le> length cs \<Longrightarrow> parseMembers n t \<noteq> Inl OutOfFuel \<and>
      (\<forall>v r. parseMembers n t = Inr (v, r) \<longrightarrow> length r < length t)"
  shows "parseValue (Suc n) (c # cs) \<noteq> Inl OutOfFuel \<and>
      (\<forall>v r. parseValue (Suc n) (c # cs) = Inr (v, r) \<longrightarrow> length r < length (c # cs))"
proof -
  let ?t = "skipWS cs"
  have lt: "length ?t \<le> length cs" by (rule length_skipWS)
  have tl: "length (tl ?t) < length (c # cs)"
    using lt by (cases ?t) auto
  consider (obj) "c = 123" | (arr) "c \<noteq> 123" "c = 91" | (str) "c \<noteq> 123" "c \<noteq> 91" "c = 34"
    | (other) "c \<noteq> 123" "c \<noteq> 91" "c \<noteq> 34" by blast
  then show ?thesis
  proof cases
    case obj
    show ?thesis
    proof (cases "?t \<noteq> [] \<and> hd ?t = 125")
      case True
      with obj tl show ?thesis by (simp add: Let_def)
    next
      case False
      with obj M [OF lt] lt show ?thesis
        by (auto simp: Let_def split: sum.splits)
    qed
  next
    case arr
    show ?thesis
    proof (cases "?t \<noteq> [] \<and> hd ?t = 93")
      case True
      with arr tl show ?thesis by (simp add: Let_def)
    next
      case False
      with arr E [OF lt] lt show ?thesis
        by (auto simp: Let_def split: sum.splits)
    qed
  next
    case str
    then show ?thesis
      by (auto split: option.splits dest: parseStringBody_length)
  next
    case other
    have d: "startsWith (c # cs) t \<Longrightarrow> 0 < k \<Longrightarrow> length (drop k (c # cs)) < length (c # cs)" for t k
      by simp
    from other show ?thesis
      by (auto split: option.splits dest: parseNumber_length)
  qed
qed

lemma parse_fuel:
  "(\<forall>s. 2 * length s + 1 \<le> n \<longrightarrow>
      parseValue n s \<noteq> Inl OutOfFuel \<and>
      (\<forall>v r. parseValue n s = Inr (v, r) \<longrightarrow> length r < length s))
   \<and> (\<forall>s. 2 * length s + 2 \<le> n \<longrightarrow>
      parseElements n s \<noteq> Inl OutOfFuel \<and>
      (\<forall>v r. parseElements n s = Inr (v, r) \<longrightarrow> length r < length s))
   \<and> (\<forall>s. 2 * length s + 2 \<le> n \<longrightarrow>
      parseMembers n s \<noteq> Inl OutOfFuel \<and>
      (\<forall>v r. parseMembers n s = Inr (v, r) \<longrightarrow> length r < length s))"
proof (induction n)
  case 0
  then show ?case by simp
next
  case (Suc n)
  then have V: "\<And>s. 2 * length s + 1 \<le> n \<Longrightarrow> parseValue n s \<noteq> Inl OutOfFuel \<and>
      (\<forall>v r. parseValue n s = Inr (v, r) \<longrightarrow> length r < length s)"
    and E: "\<And>s. 2 * length s + 2 \<le> n \<Longrightarrow> parseElements n s \<noteq> Inl OutOfFuel \<and>
      (\<forall>v r. parseElements n s = Inr (v, r) \<longrightarrow> length r < length s)"
    and M: "\<And>s. 2 * length s + 2 \<le> n \<Longrightarrow> parseMembers n s \<noteq> Inl OutOfFuel \<and>
      (\<forall>v r. parseMembers n s = Inr (v, r) \<longrightarrow> length r < length s)"
    by blast+
  have val: "parseValue (Suc n) s \<noteq> Inl OutOfFuel \<and>
      (\<forall>v r. parseValue (Suc n) s = Inr (v, r) \<longrightarrow> length r < length s)"
    if b: "2 * length s + 1 \<le> Suc n" for s
  proof (cases s)
    case Nil
    then show ?thesis by simp
  next
    case (Cons c cs)
    show ?thesis
      unfolding Cons
    proof (rule parseValue_fuel_step)
      fix t :: jsstring
      assume "length t \<le> length cs"
      with b Cons have "2 * length t + 2 \<le> n" by simp
      then show "parseElements n t \<noteq> Inl OutOfFuel \<and>
        (\<forall>v r. parseElements n t = Inr (v, r) \<longrightarrow> length r < length t)"
        "parseMembers n t \<noteq> Inl OutOfFuel \<and>
        (\<forall>v r. parseMembers n t = Inr (v, r) \<longrightarrow> length r < length t)"
        using E M by blast+
    qed
  qed
  have els: "parseElements (Suc n) s \<noteq> Inl OutOfFuel \<and>
      (\<forall>v r. parseElements (Suc n) s = Inr (v, r) \<longrightarrow> length r < length s)"
    if b: "2 * length s + 2 \<le> Suc n" for s
  proof (cases "parseValue n s")
    case (Inl e)
    with V [of s] b show ?thesis by simp
  next
    case (Inr p)
    obtain v r where p: "p = (v, r)" by (cases p)
    from V [of s] b Inr p have lr: "length r < length s" by simp
    show ?thesis
    proof (cases "skipWS r")
      case Nil
      with Inr p show ?thesis by simp
    next
      case (Cons c cs)
      from skipWS_Cons_length [OF Cons] have lc: "length cs < length r" .
      have "length (skipWS cs) \<le> length cs" by (rule length_skipWS)
      with lc lr b have f: "2 * length (skipWS cs) + 2 \<le> n" by simp
      from E [OF f] lc lr length_skipWS [of cs] Inr p Cons show ?thesis
        by (auto split: sum.splits)
    qed
  qed
  have mem: "parseMembers (Suc n) s \<noteq> Inl OutOfFuel \<and>
      (\<forall>v r. parseMembers (Suc n) s = Inr (v, r) \<longrightarrow> length r < length s)"
    if b: "2 * length s + 2 \<le> Suc n" for s
  proof (cases s)
    case Nil
    then show ?thesis by simp
  next
    case s: (Cons q qs)
    show ?thesis
    proof (cases "q = 34")
      case False
      with s show ?thesis by simp
    next
      case q: True
      show ?thesis
      proof (cases "parseStringBody qs")
        case None
        with s q show ?thesis by simp
      next
        case (Some kr)
        obtain k r0 where kr: "kr = (k, r0)" by (cases kr)
        from parseStringBody_length Some kr have l0: "length r0 < length qs" by blast
        show ?thesis
        proof (cases "skipWS r0")
          case Nil
          with s q Some kr show ?thesis by simp
        next
          case d: (Cons d ds)
          from skipWS_Cons_length [OF d] have ld: "length ds < length r0" .
          show ?thesis
          proof (cases "d = 58")
            case False
            with s q Some kr d show ?thesis by simp
          next
            case colon: True
            have lv: "length (skipWS ds) \<le> length ds" by (rule length_skipWS)
            with ld l0 b s have fv: "2 * length (skipWS ds) + 1 \<le> n" by simp
            show ?thesis
            proof (cases "parseValue n (skipWS ds)")
              case (Inl e)
              with V [OF fv] s q Some kr d colon show ?thesis by simp
            next
              case (Inr p)
              obtain v r where p: "p = (v, r)" by (cases p)
              from V [OF fv] Inr p have lr: "length r < length (skipWS ds)" by simp
              show ?thesis
              proof (cases "skipWS r")
                case Nil
                with s q Some kr d colon Inr p show ?thesis by simp
              next
                case c: (Cons c cs)
                from skipWS_Cons_length [OF c] have lc: "length cs < length r" .
                have "length (skipWS cs) \<le> length cs" by (rule length_skipWS)
                with lc lr lv ld l0 b s have f: "2 * length (skipWS cs) + 2 \<le> n" by simp
                from M [OF f] lc lr lv ld l0 length_skipWS [of cs] s q Some kr d colon Inr p c
                show ?thesis
                  by (auto split: sum.splits)
              qed
            qed
          qed
        qed
      qed
    qed
  qed
  from val els mem show ?case by blast
qed

lemma JSON_parse_total: "JSON_parse s \<noteq> Inl OutOfFuel"
proof -
  have "2 * length (skipWS s) + 1 \<le> 2 * length s + 1"
    using length_skipWS [of s] by simp
  with parse_fuel [of "2 * length s + 1"]
  have "parseValue (2 * length s + 1) (skipWS s) \<noteq> Inl OutOfFuel" by blast
  then show ?thesis
    unfolding JSON_parse_def
    by (cases "parseValue (2 * length s + 1) (skipWS s)")
       (auto simp del: parseValue.simps split: if_splits)
qed

section \<open>Profile completion\<close>

lemma Math_round_eqI:
  assumes "of_int k \<le> x + 1 / 2" and "x + 1 / 2 < of_int k + 1"
  shows "Math_round (Fin x) = Fin (of_int k)"
proof -
  from assms have "\<lfloor>x + 1 / 2\<rfloor> = k" by (intro floor_unique) auto
  then show ?thesis by simp
qed

lemma profileCompletion_count:
  assumes "completedFields p + length (achievements p) = n"
  shows "profileCompletion p = Math_round (js_mul (js_div (Fin (of_int (int n))) 9) 100)"
  using assms by (simp add: profileCompletion_def)

lemma completion_8: "Math_round (js_mul (js_div (Fin (of_int (int 8))) 9) 100) = Fin 89"
proof -
  have "js_div (Fin (of_int (int 8))) 9 = Fin (2001599834386887 / 2251799813685248)"
    by (simp add: fl_8_9)
  moreover have "js_mul (Fin (2001599834386887 / 2251799813685248)) 100
      = Fin (3127499741229511 / 35184372088832)"
    by (simp only: js_mul.simps fl_8_9_100)
  moreover have "Math_round (Fin (3127499741229511 / 35184372088832)) = Fin (of_int 89)"
    by (rule Math_round_eqI) simp_all
  ultimately show ?thesis by simp
qed

lemma completion_9: "Math_round (js_mul (js_div (Fin (of_int (int 9))) 9) 100) = Fin 100"
proof -
  have "js_div (Fin (of_int (int 9))) 9 = Fin 1"
    using fl_of_int [of 1] by simp
  moreover have "js_mul (Fin 1) 100 = Fin 100"
    using fl_of_int [of 100] by simp
  moreover have "Math_round (Fin 100) = Fin (of_int 100)"
    by (rule Math_round_eqI) simp_all
  ultimately show ?thesis by simp
qed

lemma completion_10: "Math_round (js_mul (js_div (Fin (of_int (int 10))) 9) 100) = Fin 111"
proof -
  have "js_div (Fin (of_int (int 10))) 9 = Fin (2501999792983609 / 2251799813685248)"
    by (simp add: fl_10_9)
  moreover have "js_mul (Fin (2501999792983609 / 2251799813685248)) 100
      = Fin (3909374676536889 / 35184372088832)"
    by (simp only: js_mul.simps fl_10_9_100)
  moreover have "Math_round (Fin (3909374676536889 / 35184372088832)) = Fin (of_int 111)"
    by (rule Math_round_eqI) simp_all
  ultimately show ?thesis by simp
qed

lemma completedFields_fullProfile: "completedFields (fullProfile as) = 8"
  by (simp add: completedFields_def fullProfile_def Boolean_def js_def)

text \<open>
  C1. With all eight scalar fields filled in, the completion is 89 without an
  achievement and 100 with one; with two achievements it is 111: the code adds the
  number of achievements, not one for their presence, so the value neither saturates
  nor stays within 0..100.
\<close>

theorem profileCompletion_not_saturating:
  "profileCompletion (fullProfile []) = Fin 89
   \<and> profileCompletion (fullProfile [a]) = Fin 100
   \<and> profileCompletion (fullProfile [a, b]) = Fin 111"
proof -
  have l: "achievements (fullProfile as) = as" for as
    by (simp add: fullProfile_def)
  have "profileCompletion (fullProfile []) = Fin 89"
    using profileCompletion_count [of "fullProfile []" 8]
    by (simp only: completion_8) (simp add: completedFields_fullProfile l)
  moreover have "profileCompletion (fullProfile [a]) = Fin 100"
    using profileCompletion_count [of "fullProfile [a]" 9]
    by (simp only: completion_9) (simp add: completedFields_fullProfile l)
  moreover have "profileCompletion (fullProfile [a, b]) = Fin 111"
    using profileCompletion_count [of "fullProfile [a, b]" 10]
    by (simp only: completion_10) (simp add: completedFields_fullProfile l)
  ultimately show ?thesis by simp
qed

section \<open>Importing a payload that is not JSON\<close>

lemmas parseValue_numeral =
  parseValue.simps(2) [of "pred_numeral k" s for k s, unfolded numeral_eq_Suc [symmetric]]

lemmas parseElements_numeral =
  parseElements.simps(2) [of "pred_numeral k" s for k s, unfolded numeral_eq_Suc [symmetric]]

lemmas parseMembers_numeral =
  parseMembers.simps(2) [of "pred_numeral k" s for k s, unfolded numeral_eq_Suc [symmetric]]

text \<open>
  C8. \<open>JSON_parse\<close> never stops for lack of fuel, so a payload either is a JSON text or
  is a syntax error; for every payload that is not a JSON text, \<open>importProfile\<close> raises
  the alert \<open>Invalid profile JSON\<close> and the state, the profile in it, is the one before
  the attempt.
\<close>

theorem importProfile_invalid:
  "JSON_parse raw \<noteq> Inl OutOfFuel
   \<and> ((\<forall>v. JSON_parse raw \<noteq> Inr v) \<longrightarrow>
        JSON_parse raw = Inl SyntaxError
        \<and> importProfile raw s = Alerted (js ''Invalid profile JSON'') s)"
proof -
  have t: "JSON_parse raw \<noteq> Inl OutOfFuel" by (rule JSON_parse_total)
  show ?thesis
  proof (cases "JSON_parse raw")
    case (Inl e)
    with t have "e = SyntaxError" by (cases e) auto
    with Inl t show ?thesis by (simp add: importProfile_def)
  next
    case (Inr v)
    with t show ?thesis by simp
  qed
qed

lemma parse_invalid_sample: "JSON_parse (js ''{ name: 1 }'') = Inl SyntaxError"
  by (simp add: JSON_parse_def js_def skipWS_def isJSONWhiteSpace_def
      parseValue_numeral parseMembers_numeral)

theorem importProfile_invalid_witness:
  "importProfile (js ''{ name: 1 }'') sampleState = Alerted (js ''Invalid profile JSON'') sampleState"
  using importProfile_invalid [of "js ''{ name: 1 }''" sampleState] parse_invalid_sample
  by simp

section \<open>Logging outreach\<close>

lemma find_None_schools:
  "find (\<lambda>sc. school_id sc = sid) scs = None \<longleftrightarrow> sid \<notin> school_id ` set scs"
  by (auto simp: find_None_iff)

lemma find_Some_school_id:
  "find (\<lambda>sc. school_id sc = sid) scs = Some sc \<Longrightarrow> school_id sc = sid"
  by (auto simp: find_Some_iff)

text \<open>
  C9, as amended. \<open>logOutreach\<close> changes nothing when no school has the given id or when
  the message is white space only; otherwise it appends exactly one entry with that
  \<open>schoolId\<close>, the message, the clock reading as id and the part of the ISO time stamp
  before the first \<open>T\<close> as date, which therefore has no time component. The id is the
  clock reading: the ids stay distinct when no earlier entry carries that reading.
\<close>

theorem logOutreach_clock_id:
  "(sid \<notin> school_id ` set (schools s) \<longrightarrow> logOutreach now isoText sid msg s = s)
   \<and> ((\<forall>c \<in> set msg. isWhiteSpace c) \<longrightarrow> logOutreach now isoText sid msg s = s)
   \<and> (sid \<in> school_id ` set (schools s) \<and> trim msg \<noteq> [] \<longrightarrow>
        logOutreach now isoText sid msg s =
          s\<lparr>outreach := outreach s @
               [\<lparr>outreach_id = now, schoolId = sid, date = beforeFirst 84 isoText,
                 message = msg\<rparr>]\<rparr>
        \<and> (now \<notin> outreach_id ` set (outreach s) \<longrightarrow>
             distinct (map outreach_id (outreach s)) \<longrightarrow>
             distinct (map outreach_id (outreach (logOutreach now isoText sid msg s)))))
   \<and> 84 \<notin> set (beforeFirst 84 isoText)
   \<and> (84 \<notin> set d \<longrightarrow> beforeFirst 84 (d @ [84] @ t) = d)"
proof -
  have a: "sid \<notin> school_id ` set (schools s) \<longrightarrow> logOutreach now isoText sid msg s = s"
    by (simp add: logOutreach_def find_None_schools [symmetric])
  have b: "(\<forall>c \<in> set msg. isWhiteSpace c) \<longrightarrow> logOutreach now isoText sid msg s = s"
    by (simp add: logOutreach_def trim_empty_iff [symmetric] split: option.splits)
  have c: "logOutreach now isoText sid msg s =
          s\<lparr>outreach := outreach s @
               [\<lparr>outreach_id = now, schoolId = sid, date = beforeFirst 84 isoText,
                 message = msg\<rparr>]\<rparr>"
    if "sid \<in> school_id ` set (schools s)" "trim msg \<noteq> []"
  proof -
    from that(1) obtain sc where f: "find (\<lambda>sc. school_id sc = sid) (schools s) = Some sc"
      using find_None_schools [of sid "schools s"] by (cases "find (\<lambda>sc. school_id sc = sid) (schools s)") auto
    from find_Some_school_id [OF f] f that(2) show ?thesis
      by (simp add: logOutreach_def)
  qed
  have d1: "84 \<notin> set (beforeFirst 84 isoText)"
    by (auto simp: beforeFirst_def dest: set_takeWhileD)
  have d2: "84 \<notin> set d \<longrightarrow> beforeFirst 84 (d @ [84] @ t) = d"
    by (auto simp: beforeFirst_def takeWhile_tail)
  from a b c d1 d2 show ?thesis by auto
qed

theorem logOutreach_clock_id_witness:
  "outreach (logOutreach 500 (js ''2024-02-01T10:00:00.000Z'') 2 (js ''hello coach'') sampleState) =
     sampleOutreach @
       [\<lparr>outreach_id = 500, schoolId = 2, date = js ''2024-02-01'', message = js ''hello coach''\<rparr>]
   \<and> logOutreach 500 (js ''2024-02-01T10:00:00.000Z'') 3 (js ''hello coach'') sampleState = sampleState
   \<and> logOutreach 500 (js ''2024-02-01T10:00:00.000Z'') 2 (js '' '') sampleState = sampleState"
proof -
  have m: "trim (js ''hello coach'') \<noteq> []"
    by (simp add: trim_def js_def isWhiteSpace_def)
  have w: "\<forall>c \<in> set (js '' ''). isWhiteSpace c"
    by (simp add: js_def isWhiteSpace_def)
  have i: "(2::int) \<in> school_id ` set (schools sampleState)"
      "(3::int) \<notin> school_id ` set (schools sampleState)"
    by (simp_all add: sampleState_def sampleSchools_def)
  have d: "beforeFirst 84 (js ''2024-02-01T10:00:00.000Z'') = js ''2024-02-01''"
    by (simp add: beforeFirst_def js_def)
  from logOutreach_clock_id [of 2 sampleState 500 "js ''2024-02-01T10:00:00.000Z''" "js ''hello coach''"]
    logOutreach_clock_id [of 3 sampleState 500 "js ''2024-02-01T10:00:00.000Z''" "js ''hello coach''"]
    logOutreach_clock_id [of 2 sampleState 500 "js ''2024-02-01T10:00:00.000Z''" "js '' ''"]
    m w i
  show ?thesis
    by (simp add: d) (simp add: sampleState_def)
qed

text \<open>
  C9, as stated, fails: two entries logged at the same clock reading get the same id,
  so the second id is not fresh.
\<close>

theorem logOutreach_id_not_fresh:
  "\<not> distinct (map outreach_id (outreach
      (logOutreach 500 (js ''2024-02-01T10:00:00.000Z'') 2 (js ''second'')
        (logOutreach 500 (js ''2024-02-01T10:00:00.000Z'') 2 (js ''first'') sampleState))))
   \<and> distinct (map outreach_id (outreach sampleState))"
  by (simp add: logOutreach_def sampleState_def sampleSchools_def sampleOutreach_def
      trim_def js_def isWhiteSpace_def)

section \<open>The fit score\<close>

lemma pow2_nonneg [simp]: "0 \<le> pow2 e"
  by (rule less_imp_le) simp

lemma fl_pos_cases:
  "fl_pos x = PInf \<or> (\<exists>y. fl_pos x = Fin y \<and> (0 \<le> x \<longrightarrow> 0 \<le> y))"
proof -
  have "0 \<le> x \<Longrightarrow> 0 \<le> of_int (roundTiesToEven (x / pow2 q)) * pow2 q" for q
  proof -
    assume "0 \<le> x"
    then have "0 \<le> x / pow2 q" by (intro divide_nonneg_pos) simp_all
    then have "0 \<le> roundTiesToEven (x / pow2 q)" by (rule roundTiesToEven_nonneg)
    then show ?thesis by (intro mult_nonneg_nonneg) simp_all
  qed
  then show ?thesis by (auto simp: fl_pos_def Let_def)
qed

lemma fl_cases:
  "fl x = PInf \<and> 0 < x \<or> fl x = NInf \<and> x < 0
   \<or> (\<exists>y. fl x = Fin y \<and> (0 \<le> x \<longrightarrow> 0 \<le> y) \<and> (x \<le> 0 \<longrightarrow> y \<le> 0))"
proof -
  consider "x = 0" | "0 < x" | "x < 0" by linarith
  then show ?thesis
  proof cases
    case 1
    then show ?thesis by (simp add: fl_def)
  next
    case 2
    with fl_pos_cases [of x] show ?thesis by (auto simp: fl_def)
  next
    case 3
    with fl_pos_cases [of "- x"] show ?thesis by (auto simp: fl_def)
  qed
qed

lemma fl_not_NaN [simp]: "fl x \<noteq> NaN"
  using fl_cases [of x] by auto

lemma js_div_NaN [simp]: "js_div v d = NaN \<longleftrightarrow> v = NaN"
  by (cases v) simp_all

lemma js_mul_NaN [simp]: "js_mul v m = NaN \<longleftrightarrow> v = NaN"
  by (cases v) simp_all

lemma Math_round_NaN [simp]: "Math_round v = NaN \<longleftrightarrow> v = NaN"
  by (cases v) simp_all

lemma clamp_of_int:
  fixes f :: int
  shows "f \<le> 0 \<Longrightarrow> min 100 (max 0 (of_int f :: rat)) = 0"
    and "0 \<le> f \<Longrightarrow> f \<le> 100 \<Longrightarrow> min 100 (max 0 (of_int f :: rat)) = of_int f"
    and "100 \<le> f \<Longrightarrow> min 100 (max 0 (of_int f :: rat)) = 100"
  by (simp_all add: max_def min_def)

lemma floor_half: "\<lfloor>(1::rat) / 2\<rfloor> = 0" and floor_100_half: "\<lfloor>(201::rat) / 2\<rfloor> = 100"
  by (intro floor_unique; simp)+

lemma round_clamp_commute:
  "Math_min 100 (Math_max 0 (Math_round v)) = Math_round (clamp100 v)"
proof (cases v)
  case (Fin x)
  define f where "f = \<lfloor>x + 1 / 2\<rfloor>"
  consider "x < 0" | "0 \<le> x" "x \<le> 100" | "100 < x" by linarith
  then have "min 100 (max 0 (of_int f)) = (of_int \<lfloor>min 100 (max 0 x) + 1 / 2\<rfloor> :: rat)"
  proof cases
    case 1
    then have "f \<le> 0" by (simp add: f_def floor_le_iff)
    from clamp_of_int(1) [OF this] 1 show ?thesis
      by (simp add: max_def min_def floor_half)
  next
    case 2
    have "0 \<le> f" using 2 by (simp add: f_def le_floor_iff)
    moreover have "f \<le> 100" using 2 by (simp add: f_def floor_le_iff)
    ultimately have "min 100 (max 0 (of_int f :: rat)) = of_int f" by (rule clamp_of_int(2))
    with 2 show ?thesis by (simp add: max_def min_def f_def)
  next
    case 3
    then have "100 \<le> f" by (simp add: f_def le_floor_iff)
    from clamp_of_int(3) [OF this] 3 show ?thesis
      by (simp add: max_def min_def floor_100_half)
  qed
  with Fin show ?thesis by (simp add: clamp100_def f_def)
next
  case PInf
  then show ?thesis by (simp add: clamp100_def floor_100_half)
next
  case NInf
  then show ?thesis by (simp add: clamp100_def floor_half)
qed (simp add: clamp100_def)

lemma clamp100_range: "v \<noteq> NaN \<Longrightarrow> \<exists>c. clamp100 v = Fin c \<and> 0 \<le> c \<and> c \<le> 100"
  by (cases v) (auto simp: clamp100_def)

lemma round_clamp_range:
  assumes "v \<noteq> NaN"
  shows "\<exists>k. Math_round (clamp100 v) = Fin (of_int k) \<and> 0 \<le> k \<and> k \<le> 100"
proof -
  from clamp100_range [OF assms] obtain c where c: "clamp100 v = Fin c" "0 \<le> c" "c \<le> 100"
    by blast
  have "0 \<le> \<lfloor>c + 1 / 2\<rfloor>" using c by (simp add: le_floor_iff)
  moreover have "\<lfloor>c + 1 / 2\<rfloor> \<le> 100" using c by (simp add: floor_le_iff)
  ultimately show ?thesis using c by auto
qed

lemma computeFitScore_eq_spec: "computeFitScore g = fitScoreSpec g"
  by (simp add: computeFitScore_def fitScoreSpec_def round_clamp_commute Let_def)

lemma computeFitScore_range:
  "\<exists>k. computeFitScore g = Fin (of_int k) \<and> 0 \<le> k \<and> k \<le> 100"
proof (cases "parseFloat g = NaN")
  case True
  then have "computeFitScore g = Fin (of_int 50)" by (simp add: computeFitScore_def)
  then show ?thesis by (intro exI [of _ 50]) simp
next
  case False
  then have "js_mul (js_div (parseFloat g) 4) 100 \<noteq> NaN" by simp
  from round_clamp_range [OF this] False show ?thesis
    by (simp add: computeFitScore_eq_spec fitScoreSpec_def)
qed

lemma computeFitScore_negative:
  assumes "parseFloat g = NInf \<or> (\<exists>x. parseFloat g = Fin x \<and> x < 0)"
  shows "computeFitScore g = Fin 0"
proof -
  note z = floor_half
  have n: "clamp100 w = Fin 0" if "w = NInf \<or> (\<exists>y. w = Fin y \<and> y \<le> 0)" for w
    using that by (auto simp: clamp100_def)
  have m: "js_mul w 100 = NInf \<or> (\<exists>y. js_mul w 100 = Fin y \<and> y \<le> 0)"
    if "w = NInf \<or> (\<exists>y. w = Fin y \<and> y \<le> 0)" for w
  proof -
    from that consider "w = NInf" | y where "w = Fin y" "y \<le> 0" by blast
    then show ?thesis
    proof cases
      case 1
      then show ?thesis by simp
    next
      case 2
      then have "y * 100 \<le> 0" by simp
      with fl_cases [of "y * 100"] 2 show ?thesis by auto
    qed
  qed
  have d: "js_div (parseFloat g) 4 = NInf \<or> (\<exists>y. js_div (parseFloat g) 4 = Fin y \<and> y \<le> 0)"
  proof -
    from assms consider "parseFloat g = NInf" | x where "parseFloat g = Fin x" "x < 0" by blast
    then show ?thesis
    proof cases
      case 1
      then show ?thesis by simp
    next
      case 2
      then have "x / 4 \<le> 0" by simp
      with fl_cases [of "x / 4"] 2 show ?thesis by auto
    qed
  qed
  from assms have "parseFloat g \<noteq> NaN" by auto
  with n [OF m [OF d]] z show ?thesis
    by (simp add: computeFitScore_eq_spec fitScoreSpec_def)
qed


lemmas parseFloat_defs =
  parseFloat_def trimStart_def isWhiteSpace_def strUnsignedDecimalLiteral_def
  decimalValue_def js_def isDigit_def digitsValue_def exponentPart_def pow10_def Let_def

lemma parseFloat_4: "parseFloat (js ''4.0'') = Fin 4"
  using fl_of_int [of 4] by (simp add: parseFloat_defs)

lemma parseFloat_0: "parseFloat (js ''0'') = Fin 0"
  by (simp add: parseFloat_defs fl_def)

lemma parseFloat_5: "parseFloat (js ''5.0'') = Fin 5"
  using fl_of_int [of 5] by (simp add: parseFloat_defs)

lemma parseFloat_nan: "parseFloat (js ''not-a-number'') = NaN"
  by (simp add: parseFloat_defs)

lemma parseFloat_minus2: "parseFloat (js ''-2'') = Fin (- 2)"
  using fl_of_int [of 2] by (simp add: parseFloat_defs)

lemma score_4: "computeFitScore (js ''4.0'') = Fin 100"
proof -
  have "js_div (Fin 4) 4 = Fin 1" using fl_of_int [of 1] by simp
  moreover have "js_mul (Fin 1) 100 = Fin 100" using fl_of_int [of 100] by simp
  moreover have "Math_round (Fin 100) = Fin (of_int 100)" by (rule Math_round_eqI) simp_all
  ultimately show ?thesis by (simp add: computeFitScore_def parseFloat_4)
qed

lemma score_0: "computeFitScore (js ''0'') = Fin 0"
proof -
  have "js_div (Fin 0) 4 = Fin 0" by (simp add: fl_def)
  moreover have "js_mul (Fin 0) 100 = Fin 0" by (simp add: fl_def)
  moreover have "Math_round (Fin 0) = Fin (of_int 0)" by (rule Math_round_eqI) simp_all
  ultimately show ?thesis by (simp add: computeFitScore_def parseFloat_0)
qed

lemma score_5: "computeFitScore (js ''5.0'') = Fin 100"
proof -
  have "js_div (Fin 5) 4 = Fin (5 / 4)" using fl_dyadic [of 5 2] by simp
  moreover have "js_mul (Fin (5 / 4)) 100 = Fin 125" using fl_of_int [of 125] by simp
  moreover have "Math_round (Fin 125) = Fin (of_int 125)" by (rule Math_round_eqI) simp_all
  ultimately show ?thesis by (simp add: computeFitScore_def parseFloat_5)
qed

text \<open>
  C6. For every GPA text the fit score is an integer from 0 to 100; it is 50 when the
  text does not parse as a number, and otherwise the specification's
  \<open>round(clamp(gpa / 4 * 100, 0, 100))\<close>, computed in doubles; \<open>4.0\<close> gives 100, \<open>0\<close>
  gives 0, \<open>not-a-number\<close> gives 50, \<open>5.0\<close> gives 100, and a negative number, minus
  infinity included, gives 0.
\<close>

theorem computeFitScore_spec:
  "(\<exists>k. computeFitScore g = Fin (of_int k) \<and> 0 \<le> k \<and> k \<le> 100)
   \<and> (parseFloat g = NaN \<longrightarrow> computeFitScore g = Fin 50)
   \<and> (parseFloat g \<noteq> NaN \<longrightarrow>
        computeFitScore g = Math_round (clamp100 (js_mul (js_div (parseFloat g) 4) 100)))
   \<and> computeFitScore g = fitScoreSpec g
   \<and> computeFitScore (js ''4.0'') = Fin 100
   \<and> computeFitScore (js ''0'') = Fin 0
   \<and> computeFitScore (js ''not-a-number'') = Fin 50
   \<and> computeFitScore (js ''5.0'') = Fin 100
   \<and> (parseFloat g = NInf \<or> (\<exists>x. parseFloat g = Fin x \<and> x < 0) \<longrightarrow>
        computeFitScore g = Fin 0)"
proof -
  have "computeFitScore (js ''not-a-number'') = Fin 50"
    by (simp add: computeFitScore_def parseFloat_nan)
  moreover have "parseFloat g = NaN \<longrightarrow> computeFitScore g = Fin 50"
    by (simp add: computeFitScore_def)
  moreover have "parseFloat g \<noteq> NaN \<longrightarrow>
        computeFitScore g = Math_round (clamp100 (js_mul (js_div (parseFloat g) 4) 100))"
    by (simp add: computeFitScore_eq_spec fitScoreSpec_def)
  moreover note computeFitScore_range [of g] computeFitScore_eq_spec [of g] score_4 score_0 score_5
  moreover have "parseFloat g = NInf \<or> (\<exists>x. parseFloat g = Fin x \<and> x < 0) \<longrightarrow>
        computeFitScore g = Fin 0"
    using computeFitScore_negative [of g] by blast
  ultimately show ?thesis by blast
qed

theorem computeFitScore_spec_witness:
  "computeFitScore (js ''-2'') = Fin 0 \<and> computeFitScore (js ''not-a-number'') = Fin 50"
proof -
  have n: "parseFloat (js ''-2'') = NInf \<or> (\<exists>x. parseFloat (js ''-2'') = Fin x \<and> x < 0)"
    by (simp add: parseFloat_minus2)
  from computeFitScore_spec [of "js ''-2''"] n
  have "computeFitScore (js ''-2'') = Fin 0" by blast
  moreover from computeFitScore_spec [of "js ''not-a-number''"] parseFloat_nan
  have "computeFitScore (js ''not-a-number'') = Fin 50" by blast
  ultimately show ?thesis by simp
qed

section \<open>A numeric prefix is enough\<close>

lemma takeWhile_nodigit [simp]: "\<forall>c \<in> set t. \<not> isDigit c \<Longrightarrow> takeWhile isDigit t = []"
  by (cases t) auto

lemma dropWhile_nodigit [simp]: "\<forall>c \<in> set t. \<not> isDigit c \<Longrightarrow> dropWhile isDigit t = t"
  by (cases t) auto

lemma takeWhile_digits_append:
  assumes "\<forall>c \<in> set t. \<not> isDigit c"
  shows "takeWhile isDigit (a @ t) = takeWhile isDigit a"
  using assms by (induction a) auto

lemma dropWhile_digits_append:
  assumes "\<forall>c \<in> set t. \<not> isDigit c"
  shows "dropWhile isDigit (a @ t) = dropWhile isDigit a @ t"
  using assms by (induction a) auto

lemma nodigit_tl: "\<forall>c \<in> set t. \<not> isDigit c \<Longrightarrow> \<forall>c \<in> set (tl t). \<not> isDigit c"
  by (cases t) auto

lemma exponentPart_nodigit:
  assumes "\<forall>c \<in> set t. \<not> isDigit c"
  shows "fst (exponentPart t) = 0"
proof (cases t)
  case Nil
  then show ?thesis by (simp add: exponentPart_def)
next
  case (Cons c t')
  with assms have n: "\<forall>c \<in> set t'. \<not> isDigit c" by simp
  have "takeWhile isDigit (if t' \<noteq> [] \<and> (hd t' = 43 \<or> hd t' = 45) then tl t' else t') = []"
    using n nodigit_tl [OF n] by simp
  with Cons show ?thesis
    by (simp add: exponentPart_def Let_def)
qed

lemma exponentPart_append:
  assumes t: "\<forall>c \<in> set t. \<not> isDigit c"
  shows "fst (exponentPart (r @ t)) = fst (exponentPart r)"
proof (cases r)
  case Nil
  then show ?thesis by (simp add: exponentPart_nodigit [OF t]) (simp add: exponentPart_def)
next
  case (Cons c r')
  show ?thesis
  proof (cases "c = 101 \<or> c = 69")
    case False
    with Cons show ?thesis by (simp add: exponentPart_def)
  next
    case True
    show ?thesis
    proof (cases r')
      case Nil
      have "takeWhile isDigit (if t \<noteq> [] \<and> (hd t = 43 \<or> hd t = 45) then tl t else t) = []"
        using t nodigit_tl [OF t] by simp
      with Cons Nil True show ?thesis
        by (simp add: exponentPart_def Let_def)
    next
      case r': (Cons d r'')
      with Cons True show ?thesis
        by (simp add: exponentPart_def Let_def takeWhile_digits_append [OF t])
    qed
  qed
qed

lemma startsWith_append: "startsWith a k \<Longrightarrow> startsWith (a @ t) k"
  by (induction a k rule: startsWith.induct) auto

lemma decimalValue_append:
  assumes t: "\<forall>c \<in> set t. \<not> isDigit c"
    and v: "decimalValue ip r1 \<noteq> None"
  shows "decimalValue ip (r1 @ t) = decimalValue ip r1"
proof (cases "r1 = []")
  case True
  with v have ip: "ip \<noteq> []" by (auto simp: decimalValue_def split: if_splits)
  have e0: "fst (exponentPart []) = 0" by (simp add: exponentPart_def)
  have et: "fst (exponentPart t) = 0" by (rule exponentPart_nodigit [OF t])
  have ett: "fst (exponentPart (tl t)) = 0"
    by (rule exponentPart_nodigit [OF nodigit_tl [OF t]])
  have tt: "takeWhile isDigit (tl t) = []" "dropWhile isDigit (tl t) = tl t"
    using nodigit_tl [OF t] by simp_all
  show ?thesis
    by (simp add: decimalValue_def Let_def True ip e0 et ett tt)
next
  case False
  then show ?thesis
    by (simp add: decimalValue_def Let_def takeWhile_digits_append [OF t]
        dropWhile_digits_append [OF t] exponentPart_append [OF t])
qed

lemma decimalValue_hd:
  assumes "decimalValue (takeWhile isDigit a) (dropWhile isDigit a) \<noteq> None"
  shows "a \<noteq> [] \<and> (isDigit (hd a) \<or> hd a = 46)"
proof (cases a)
  case Nil
  with assms show ?thesis by (simp add: decimalValue_def)
next
  case (Cons c a')
  show ?thesis
  proof (cases "isDigit c")
    case True
    with Cons show ?thesis by simp
  next
    case False
    with Cons assms show ?thesis
      by (auto simp: decimalValue_def Let_def split: if_splits)
  qed
qed

lemma literal_append:
  assumes t: "\<forall>c \<in> set t. \<not> isDigit c"
    and a: "strUnsignedDecimalLiteral a \<noteq> None"
  shows "strUnsignedDecimalLiteral (a @ t) = strUnsignedDecimalLiteral a"
proof (cases "startsWith a (js ''Infinity'')")
  case True
  with startsWith_append [OF True, of t] show ?thesis
    by (simp add: strUnsignedDecimalLiteral_def)
next
  case False
  with a have v: "decimalValue (takeWhile isDigit a) (dropWhile isDigit a) \<noteq> None"
    by (simp add: strUnsignedDecimalLiteral_def)
  from decimalValue_hd [OF v] have nI: "\<not> startsWith (a @ t) (js ''Infinity'')"
    by (cases a) (auto simp: js_def isDigit_def)
  from nI False show ?thesis
    by (simp add: strUnsignedDecimalLiteral_def takeWhile_digits_append [OF t]
        dropWhile_digits_append [OF t] decimalValue_append [OF t v])
qed

lemma parseFloat_append:
  assumes t: "\<forall>c \<in> set t. \<not> isDigit c" and p: "parseFloat p \<noteq> NaN"
  shows "parseFloat (p @ t) = parseFloat p"
proof -
  define tp where "tp = trimStart p"
  define u where "u = (if tp \<noteq> [] \<and> (hd tp = 43 \<or> hd tp = 45) then tl tp else tp)"
  have pf: "parseFloat p =
      (case strUnsignedDecimalLiteral u of
         None \<Rightarrow> NaN
       | Some LitInfinity \<Rightarrow> (if tp \<noteq> [] \<and> hd tp = 45 then NInf else PInf)
       | Some (LitValue m) \<Rightarrow> (if tp \<noteq> [] \<and> hd tp = 45 then js_neg (fl m) else fl m))"
    unfolding parseFloat_def Let_def tp_def u_def by (rule refl)
  with p have lit: "strUnsignedDecimalLiteral u \<noteq> None" by (auto split: option.splits)
  have uN: "u \<noteq> []"
  proof
    assume "u = []"
    then have "strUnsignedDecimalLiteral u = None"
      by (simp add: strUnsignedDecimalLiteral_def decimalValue_def js_def)
    with lit show False by simp
  qed
  then have tpN: "tp \<noteq> []" by (auto simp: u_def split: if_splits)
  then obtain x where x: "x \<in> set p" "\<not> isWhiteSpace x"
    by (auto simp: tp_def trimStart_def dropWhile_eq_Nil_conv)
  have tp': "trimStart (p @ t) = tp @ t"
    using dropWhile_append1 [of x p isWhiteSpace t] x by (simp add: tp_def trimStart_def)
  have u': "(if tp @ t \<noteq> [] \<and> (hd (tp @ t) = 43 \<or> hd (tp @ t) = 45) then tl (tp @ t) else tp @ t) = u @ t"
    using tpN by (simp add: u_def)
  have neg': "(tp @ t \<noteq> [] \<and> hd (tp @ t) = 45) = (tp \<noteq> [] \<and> hd tp = 45)"
    using tpN by simp
  have "parseFloat (p @ t) =
      (case strUnsignedDecimalLiteral (u @ t) of
         None \<Rightarrow> NaN
       | Some LitInfinity \<Rightarrow> (if tp \<noteq> [] \<and> hd tp = 45 then NInf else PInf)
       | Some (LitValue m) \<Rightarrow> (if tp \<noteq> [] \<and> hd tp = 45 then js_neg (fl m) else fl m))"
    unfolding parseFloat_def [of "p @ t"] Let_def tp' u' neg' by (rule refl)
  then show ?thesis
    by (simp add: literal_append [OF t lit] pf)
qed

lemma parseFloat_NaN_iff:
  "parseFloat g = NaN \<longleftrightarrow>
     strUnsignedDecimalLiteral
       (if trimStart g \<noteq> [] \<and> (hd (trimStart g) = 43 \<or> hd (trimStart g) = 45)
        then tl (trimStart g) else trimStart g) = None"
proof -
  have "fl m \<noteq> NaN" "js_neg (fl m) \<noteq> NaN" for m
    using fl_cases [of m] by auto
  then show ?thesis
    by (auto simp: parseFloat_def Let_def split: option.splits literal.splits)
qed

lemma parseFloat_3_5: "parseFloat (js ''3.5'') = Fin (7 / 2)"
  using fl_dyadic [of 7 1] by (simp add: parseFloat_defs)

lemma score_3_5: "computeFitScore (js ''3.5'') = Fin 88"
proof -
  have "js_div (Fin (7 / 2)) 4 = Fin (7 / 8)" using fl_dyadic [of 7 3] by simp
  moreover have "js_mul (Fin (7 / 8)) 100 = Fin (175 / 2)" using fl_dyadic [of 175 1] by simp
  moreover have "Math_round (Fin (175 / 2)) = Fin (of_int 88)" by (rule Math_round_eqI) simp_all
  ultimately show ?thesis by (simp add: computeFitScore_def parseFloat_3_5)
qed

lemma nodigit_abc: "\<forall>c \<in> set (js ''abc''). \<not> isDigit c"
  by (simp add: js_def isDigit_def)

lemma score_3_5abc: "computeFitScore (js ''3.5abc'') = Fin 88"
proof -
  have "js ''3.5abc'' = js ''3.5'' @ js ''abc''" by (simp add: js_def)
  moreover have "parseFloat (js ''3.5'' @ js ''abc'') = parseFloat (js ''3.5'')"
    by (rule parseFloat_append [OF nodigit_abc]) (simp add: parseFloat_3_5)
  ultimately have "computeFitScore (js ''3.5abc'') = computeFitScore (js ''3.5'')"
    by (simp add: computeFitScore_def)
  then show ?thesis by (simp add: score_3_5)
qed

text \<open>
  C10. \<open>parseFloat\<close> reads a prefix: when a text parses as a number, the text followed
  by any characters that are not digits parses as the same number, so the fit score is
  the clamped, rounded score of the prefix and not the default; \<open>3.5abc\<close> scores 88
  as \<open>3.5\<close> does. The default branch is taken exactly when, after the leading white
  space and an optional sign, no prefix is a decimal literal.
\<close>

theorem computeFitScore_numeric_prefix:
  "(parseFloat p \<noteq> NaN \<longrightarrow> (\<forall>c \<in> set t. \<not> isDigit c) \<longrightarrow>
      parseFloat (p @ t) = parseFloat p
      \<and> computeFitScore (p @ t) = computeFitScore p
      \<and> computeFitScore (p @ t) =
          Math_round (clamp100 (js_mul (js_div (parseFloat p) 4) 100)))
   \<and> computeFitScore (js ''3.5abc'') = Fin 88
   \<and> computeFitScore (js ''3.5'') = Fin 88
   \<and> (parseFloat g = NaN \<longleftrightarrow>
        strUnsignedDecimalLiteral
          (if trimStart g \<noteq> [] \<and> (hd (trimStart g) = 43 \<or> hd (trimStart g) = 45)
           then tl (trimStart g) else trimStart g) = None)
   \<and> (parseFloat g \<noteq> NaN \<longrightarrow>
        computeFitScore g = Math_round (clamp100 (js_mul (js_div (parseFloat g) 4) 100)))"
proof -
  have a: "parseFloat (p @ t) = parseFloat p
      \<and> computeFitScore (p @ t) = computeFitScore p
      \<and> computeFitScore (p @ t) =
          Math_round (clamp100 (js_mul (js_div (parseFloat p) 4) 100))"
    if "parseFloat p \<noteq> NaN" "\<forall>c \<in> set t. \<not> isDigit c"
  proof -
    from parseFloat_append [OF that(2,1)] have e: "parseFloat (p @ t) = parseFloat p" .
    then have "computeFitScore (p @ t) = computeFitScore p"
      by (simp add: computeFitScore_def)
    with e that(1) show ?thesis
      by (simp add: computeFitScore_eq_spec fitScoreSpec_def)
  qed
  have b: "parseFloat g \<noteq> NaN \<longrightarrow>
        computeFitScore g = Math_round (clamp100 (js_mul (js_div (parseFloat g) 4) 100))"
    by (simp add: computeFitScore_eq_spec fitScoreSpec_def)
  from a b score_3_5abc score_3_5 parseFloat_NaN_iff [of g] show ?thesis by blast
qed

theorem computeFitScore_numeric_prefix_witness:
  "parseFloat (js ''3.5'' @ js ''abc'') = Fin (7 / 2)
   \<and> computeFitScore (js ''3.5'' @ js ''abc'') = Fin 88"
proof -
  have n: "parseFloat (js ''3.5'') \<noteq> NaN" by (simp add: parseFloat_3_5)
  from computeFitScore_numeric_prefix [of "js ''3.5''" "js ''abc''"] n nodigit_abc
  have "parseFloat (js ''3.5'' @ js ''abc'') = parseFloat (js ''3.5'')"
    "computeFitScore (js ''3.5'' @ js ''abc'') = computeFitScore (js ''3.5'')"
    by blast+
  then show ?thesis by (simp add: parseFloat_3_5 score_3_5)
qed

section \<open>Export and import of the profile\<close>

subsection \<open>Strings are read back\<close>







subsection \<open>Integers are read back\<close>

lemma digitsOf_nonempty [simp]: "digitsOf n \<noteq> []"
  by (subst digitsOf.simps) simp











subsection \<open>Values\<close>










subsection \<open>Objects and arrays\<close>


lemma okRest_simps [simp]: "okRest (44 # r)" "okRest (10 # r)" "okRest []"
  by (simp_all add: okRest_def)













subsection \<open>The exported text\<close>









subsection \<open>The round trip\<close>










end
